theory Spec2Isabelle
  imports Main
begin

section \<open>Values, exceptions and the Python primitives the converter uses\<close>

text \<open>
  The converter of \<^verbatim>\<open>src/mcp_atlassian/models/jira/adf.py\<close> receives a decoded JSON
  document: \<^verbatim>\<open>None\<close>, booleans, integers, strings, lists and dictionaries with string keys.
  A dictionary is an association list in insertion order, looked up with \<open>map_of\<close>
  (Python dictionaries have no duplicate keys, so the first entry is the only one).
  Numbers with a fraction or an exponent (Python floats) are not part of the value type.
  Strings are lists of code points below 256.

  The source is written without type checks, so a field may hold any value and a function may
  return any value; every function of the model therefore works on \<open>json\<close> and returns
  \<open>exn + 'a\<close>, with \<open>Inl\<close> the exception that the Python raises.
\<close>

datatype json =
    JNull
  | JBool bool
  | JInt int
  | JStr string
  | JList "json list"
  | JDict "(string \<times> json) list"

datatype exn = TypeError | AttributeError | ValueError | OverflowError | OSError | RecursionError

abbreviation nl :: char where "nl \<equiv> CHR 0x0A"
abbreviation bt :: char where "bt \<equiv> CHR 0x60"

text \<open>Truth value of an object, as \<^verbatim>\<open>if x:\<close>, \<^verbatim>\<open>not x\<close> and \<^verbatim>\<open>x or y\<close> test it.\<close>

fun truthy :: "json \<Rightarrow> bool" where
  "truthy JNull = False"
| "truthy (JBool b) = b"
| "truthy (JInt n) = (n \<noteq> 0)"
| "truthy (JStr s) = (s \<noteq> [])"
| "truthy (JList xs) = (xs \<noteq> [])"
| "truthy (JDict d) = (d \<noteq> [])"

text \<open>\<^verbatim>\<open>d.get(k, default)\<close> on a dictionary.\<close>

definition dget :: "(string \<times> json) list \<Rightarrow> string \<Rightarrow> json \<Rightarrow> json" where
  "dget d k dflt = (case map_of d k of Some v \<Rightarrow> v | None \<Rightarrow> dflt)"

text \<open>\<^verbatim>\<open>x.get(k, default)\<close> on any object: only dictionaries have the attribute.\<close>

fun py_get :: "json \<Rightarrow> string \<Rightarrow> json \<Rightarrow> exn + json" where
  "py_get (JDict d) k dflt = Inr (dget d k dflt)"
| "py_get _ k dflt = Inl AttributeError"

text \<open>
  \<^verbatim>\<open>for m in x\<close>: a list yields its elements, a string its characters, a dictionary its
  keys; the other values are not iterable.
\<close>

fun py_iter :: "json \<Rightarrow> exn + json list" where
  "py_iter (JList xs) = Inr xs"
| "py_iter (JStr s) = Inr (map (\<lambda>c. JStr [c]) s)"
| "py_iter (JDict d) = Inr (map (\<lambda>kv. JStr (fst kv)) d)"
| "py_iter _ = Inl TypeError"

subsection \<open>\<^verbatim>\<open>str\<close> and \<^verbatim>\<open>repr\<close>\<close>

text \<open>
  An f-string field \<^verbatim>\<open>{x}\<close> and \<^verbatim>\<open>str(x)\<close> give a string itself and the \<^verbatim>\<open>repr\<close>
  of every other value. Printing an integer of more than 4300 decimal digits raises
  \<^verbatim>\<open>ValueError\<close> (the interpreter's default limit on integer-string conversion).
\<close>

definition int_max_str_digits :: nat where
  "int_max_str_digits = 4300"

text \<open>The decimal digits of a number that is not negative.\<close>

function show_dec :: "int \<Rightarrow> string" where
  "show_dec n = (if n < 10 then [''0123456789'' ! nat n]
                 else show_dec (n div 10) @ [''0123456789'' ! nat (n mod 10)])"
  by pat_completeness auto
termination
  by (relation "measure nat") auto

declare show_dec.simps [simp del]

definition show_int :: "int \<Rightarrow> string" where
  "show_int i = (if i < 0 then CHR ''-'' # show_dec (- i) else show_dec i)"

definition repr_int :: "int \<Rightarrow> exn + string" where
  "repr_int i = (if length (show_dec \<bar>i\<bar>) > int_max_str_digits then Inl ValueError
                 else Inr (show_int i))"

definition hex2 :: "nat \<Rightarrow> string" where
  "hex2 n = [''0123456789abcdef'' ! (n div 16), ''0123456789abcdef'' ! (n mod 16)]"

text \<open>
  One character inside the \<^verbatim>\<open>repr\<close> of a string delimited by \<open>q\<close>: the delimiter and
  the backslash are escaped, tab, newline and return have their letters, and the characters
  that are not printable (controls, DEL, 0x80 to 0xA0, the soft hyphen 0xAD) are \<^verbatim>\<open>\xhh\<close>.
\<close>

definition repr_char :: "char \<Rightarrow> char \<Rightarrow> string" where
  "repr_char q c =
     (let n = of_char c :: nat in
      if c = q \<or> c = CHR 0x5C then [CHR 0x5C, c]
      else if n = 9 then [CHR 0x5C, CHR ''t'']
      else if n = 10 then [CHR 0x5C, CHR ''n'']
      else if n = 13 then [CHR 0x5C, CHR ''r'']
      else if n < 32 \<or> n = 127 \<or> (128 \<le> n \<and> n \<le> 160) \<or> n = 173
        then [CHR 0x5C, CHR ''x''] @ hex2 n
      else [c])"

definition repr_str :: "string \<Rightarrow> string" where
  "repr_str s =
     (let q = (if CHR 0x27 \<in> set s \<and> CHR 0x22 \<notin> set s then CHR 0x22 else CHR 0x27)
      in [q] @ concat (map (repr_char q) s) @ [q])"

fun join_with :: "string \<Rightarrow> string list \<Rightarrow> string" where
  "join_with sep [] = []"
| "join_with sep [x] = x"
| "join_with sep (x # y # ys) = x @ sep @ join_with sep (y # ys)"

fun py_repr :: "json \<Rightarrow> exn + string"
  and repr_items :: "json list \<Rightarrow> exn + string list"
  and repr_entries :: "(string \<times> json) list \<Rightarrow> exn + string list"
where
  "py_repr JNull = Inr ''None''"
| "py_repr (JBool b) = Inr (if b then ''True'' else ''False'')"
| "py_repr (JInt i) = repr_int i"
| "py_repr (JStr s) = Inr (repr_str s)"
| "py_repr (JList xs) =
     (case repr_items xs of Inl e \<Rightarrow> Inl e
      | Inr rs \<Rightarrow> Inr (''['' @ join_with '', '' rs @ '']''))"
| "py_repr (JDict d) =
     (case repr_entries d of Inl e \<Rightarrow> Inl e
      | Inr rs \<Rightarrow> Inr (''{'' @ join_with '', '' rs @ ''}''))"
| "repr_items [] = Inr []"
| "repr_items (x # xs) =
     (case py_repr x of Inl e \<Rightarrow> Inl e
      | Inr r \<Rightarrow> (case repr_items xs of Inl e \<Rightarrow> Inl e | Inr rs \<Rightarrow> Inr (r # rs)))"
| "repr_entries [] = Inr []"
| "repr_entries (kv # d) =
     (case py_repr (snd kv) of Inl e \<Rightarrow> Inl e
      | Inr r \<Rightarrow> (case repr_entries d of Inl e \<Rightarrow> Inl e
          | Inr rs \<Rightarrow> Inr ((repr_str (fst kv) @ '': '' @ r) # rs)))"

fun py_str :: "json \<Rightarrow> exn + string" where
  "py_str (JStr s) = Inr s"
| "py_str v = py_repr v"

text \<open>The f-string \<^verbatim>\<open>f"<pre>{v}<post>"\<close> with one field.\<close>

definition fmt :: "string \<Rightarrow> json \<Rightarrow> string \<Rightarrow> exn + json" where
  "fmt pre v post = (case py_str v of Inl e \<Rightarrow> Inl e | Inr s \<Rightarrow> Inr (JStr (pre @ s @ post)))"

subsection \<open>\<^verbatim>\<open>str.split("\n")\<close> and \<^verbatim>\<open>"\n".join\<close>\<close>

fun split_nl :: "string \<Rightarrow> string list" where
  "split_nl [] = [[]]"
| "split_nl (c # cs) =
     (if c = nl then [] # split_nl cs
      else (case split_nl cs of l # ls \<Rightarrow> (c # l) # ls | [] \<Rightarrow> [[c]]))"

text \<open>\<^verbatim>\<open>text.split("\n")\<close>: only a string has the method.\<close>

fun py_split_nl :: "json \<Rightarrow> exn + string list" where
  "py_split_nl (JStr s) = Inr (split_nl s)"
| "py_split_nl _ = Inl AttributeError"

text \<open>\<^verbatim>\<open>"\n".join(parts)\<close>: an item that is not a string raises \<^verbatim>\<open>TypeError\<close>.\<close>

fun strs_of :: "json list \<Rightarrow> exn + string list" where
  "strs_of [] = Inr []"
| "strs_of (JStr s # vs) = (case strs_of vs of Inl e \<Rightarrow> Inl e | Inr ss \<Rightarrow> Inr (s # ss))"
| "strs_of (_ # vs) = Inl TypeError"

definition py_join_nl :: "json list \<Rightarrow> exn + json" where
  "py_join_nl parts =
     (case strs_of parts of Inl e \<Rightarrow> Inl e | Inr ss \<Rightarrow> Inr (JStr (join_with [nl] ss)))"

section \<open>The date node: \<^verbatim>\<open>int\<close>, true division, \<^verbatim>\<open>datetime.fromtimestamp\<close>, \<^verbatim>\<open>strftime\<close>\<close>

text \<open>
  \<^verbatim>\<open>int(s)\<close> on a string: white space around the number is dropped (tab, newline,
  vertical tab, form feed, return, space, and the two spaces 0x85 and 0xA0 beyond ASCII; the
  separators 0x1C to 0x1F are not dropped), a sign may come first, then decimal digits, where
  single underscores may stand between digits. Anything else, and a number of more than 4300
  digits, raises \<^verbatim>\<open>ValueError\<close>.
\<close>

definition py_isspace :: "char \<Rightarrow> bool" where
  "py_isspace c = (of_char c \<in> set [9, 10, 11, 12, 13, 32, 133, 160 :: nat])"

definition py_strip :: "string \<Rightarrow> string" where
  "py_strip s = rev (dropWhile py_isspace (rev (dropWhile py_isspace s)))"

definition is_digit :: "char \<Rightarrow> bool" where
  "is_digit c = (48 \<le> (of_char c :: nat) \<and> (of_char c :: nat) \<le> 57)"

definition digit_val :: "char \<Rightarrow> int" where
  "digit_val c = int (of_char c) - 48"

text \<open>Digits with single underscores between them: \<open>prev\<close> says that a digit came just before.\<close>

fun digits_ok :: "bool \<Rightarrow> string \<Rightarrow> bool" where
  "digits_ok prev [] = prev"
| "digits_ok prev (c # cs) =
     (if is_digit c then digits_ok True cs
      else if c = CHR ''_'' then prev \<and> digits_ok False cs
      else False)"

definition digits_value :: "string \<Rightarrow> int" where
  "digits_value ds = foldl (\<lambda>acc c. 10 * acc + digit_val c) 0 ds"

definition int_of_str :: "string \<Rightarrow> exn + int" where
  "int_of_str s =
     (let t = py_strip s;
          neg = (t \<noteq> [] \<and> hd t = CHR ''-'');
          body = (if t \<noteq> [] \<and> (hd t = CHR ''-'' \<or> hd t = CHR ''+'') then tl t else t);
          ds = filter is_digit body
      in if digits_ok False body \<and> length ds \<le> int_max_str_digits
         then Inr (if neg then - digits_value ds else digits_value ds)
         else Inl ValueError)"

fun py_int :: "json \<Rightarrow> exn + int" where
  "py_int (JInt n) = Inr n"
| "py_int (JBool b) = Inr (if b then 1 else 0)"
| "py_int (JStr s) = int_of_str s"
| "py_int _ = Inl TypeError"

text \<open>
  Days since 1970-01-01 to the proleptic Gregorian (year, month, day): the calendar
  arithmetic that \<^verbatim>\<open>gmtime\<close> performs.
\<close>

definition civil_from_days :: "int \<Rightarrow> int \<times> int \<times> int" where
  "civil_from_days days =
     (let z = days + 719468;
          era = z div 146097;
          doe = z mod 146097;
          yoe = (doe - doe div 1460 + doe div 36524 - doe div 146096) div 365;
          doy = doe - (365 * yoe + yoe div 4 - yoe div 100);
          mp = (5 * doy + 2) div 153;
          d = doy - (153 * mp + 2) div 5 + 1;
          m = (if mp < 10 then mp + 3 else mp - 9);
          y = yoe + era * 400
      in (if m \<le> 2 then y + 1 else y, m, d))"

definition pad_dec :: "nat \<Rightarrow> int \<Rightarrow> string" where
  "pad_dec w n = replicate (w - length (show_dec n)) (CHR ''0'') @ show_dec n"

text \<open>
  \<^verbatim>\<open>datetime.fromtimestamp(ms / 1000, tz=timezone.utc).strftime("%Y-%m-%d")\<close> for an integer
  \<open>ms\<close>, as CPython 3.11 computes it on Linux with a 64-bit \<^verbatim>\<open>time_t\<close> and glibc:
  \<^item> the quotient \<^verbatim>\<open>ms / 1000\<close> is a float, rounded to nearest; when it is too large for
    a float the division raises \<^verbatim>\<open>OverflowError\<close>, and when the float is outside
    \<open>- 2 ^ 63 \<le> t \<le> 2 ^ 63\<close> \<^verbatim>\<open>fromtimestamp\<close> raises \<^verbatim>\<open>OverflowError\<close>; the second
    range contains the first. The float is at most \<open>2 ^ 63\<close> exactly when the quotient is
    at most \<open>2 ^ 63 + 1024\<close>, the middle between \<open>2 ^ 63\<close> and the next float. (Later
    versions of the interpreter also refuse the float \<open>2 ^ 63\<close> itself.)
  \<^item> inside that range a year outside 1..9999 raises \<^verbatim>\<open>ValueError\<close>, or \<^verbatim>\<open>OSError\<close>
    when \<^verbatim>\<open>gmtime\<close> itself fails; the source catches both in the same clause, and the
    model has \<^verbatim>\<open>ValueError\<close> for both;
  \<^item> otherwise the date is the day that contains the instant: rounding the quotient to a
    float and then to microseconds moves an instant with a whole number of milliseconds by
    less than a millisecond inside that range, so the day is \<open>ms div 86400000\<close>.
  glibc prints the year of \<^verbatim>\<open>%Y\<close> without leading zeros (\<^verbatim>\<open>999-12-31\<close>), and the month
  and the day with two digits.
\<close>

definition time_t_overflow :: "int \<Rightarrow> bool" where
  "time_t_overflow ms = (ms > (2 ^ 63 + 1024) * 1000 \<or> ms < - ((2 ^ 63 + 1024) * 1000))"

definition fromtimestamp_ymd :: "int \<Rightarrow> exn + string" where
  "fromtimestamp_ymd ms =
     (if time_t_overflow ms then Inl OverflowError
      else (case civil_from_days (ms div 86400000) of
              (y, m, d) \<Rightarrow>
                if y < 1 \<or> 9999 < y then Inl ValueError
                else Inr (show_dec y @ ''-'' @ pad_dec 2 m @ ''-'' @ pad_dec 2 d)))"

text \<open>
  The \<^verbatim>\<open>try\<close> block of the date branch and its handler
  \<^verbatim>\<open>except (ValueError, OSError, TypeError): return str(timestamp)\<close>: another exception of
  the block, and an exception of \<^verbatim>\<open>str\<close> in the handler, leave the function.
\<close>

definition date_try :: "json \<Rightarrow> exn + json" where
  "date_try timestamp =
     (case (case py_int timestamp of Inl e \<Rightarrow> Inl e | Inr ms \<Rightarrow> fromtimestamp_ymd ms) of
        Inr s \<Rightarrow> Inr (JStr s)
      | Inl e \<Rightarrow>
          if e = ValueError \<or> e = OSError \<or> e = TypeError
          then (case py_str timestamp of Inl e' \<Rightarrow> Inl e' | Inr s \<Rightarrow> Inr (JStr s))
          else Inl e)"

section \<open>The mark applier\<close>

text \<open>One turn of the loop of \<^verbatim>\<open>_apply_marks\<close>: the text so far and one mark.\<close>

definition apply_mark :: "json \<Rightarrow> json \<Rightarrow> exn + json" where
  "apply_mark text mark =
     (case py_get mark ''type'' JNull of Inl e \<Rightarrow> Inl e
      | Inr mark_type \<Rightarrow>
          if mark_type = JStr ''code'' then fmt ''`'' text ''`''
          else if mark_type = JStr ''strong'' then fmt ''**'' text ''**''
          else if mark_type = JStr ''em'' then fmt ''*'' text ''*''
          else if mark_type = JStr ''strike'' then fmt ''~~'' text ''~~''
          else if mark_type = JStr ''underline'' then fmt ''<u>'' text ''</u>''
          else if mark_type = JStr ''link'' then
            (case py_get mark ''attrs'' (JDict []) of Inl e \<Rightarrow> Inl e
             | Inr attrs \<Rightarrow>
                 (case py_get attrs ''href'' (JStr []) of Inl e \<Rightarrow> Inl e
                  | Inr href \<Rightarrow>
                      if truthy href then
                        (case py_str text of Inl e \<Rightarrow> Inl e
                         | Inr t \<Rightarrow>
                             (case py_str href of Inl e \<Rightarrow> Inl e
                              | Inr h \<Rightarrow> Inr (JStr (''['' @ t @ '']('' @ h @ '')''))))
                      else Inr text))
          else if mark_type = JStr ''subsup'' then
            (case py_get mark ''attrs'' (JDict []) of Inl e \<Rightarrow> Inl e
             | Inr attrs \<Rightarrow>
                 (case py_get attrs ''type'' JNull of Inl e \<Rightarrow> Inl e
                  | Inr subsup_type \<Rightarrow>
                      if subsup_type = JStr ''sub'' then fmt ''<sub>'' text ''</sub>''
                      else if subsup_type = JStr ''sup'' then fmt ''<sup>'' text ''</sup>''
                      else Inr text))
          else Inr text)"

fun apply_marks_loop :: "json \<Rightarrow> json list \<Rightarrow> exn + json" where
  "apply_marks_loop text [] = Inr text"
| "apply_marks_loop text (mark # marks) =
     (case apply_mark text mark of Inl e \<Rightarrow> Inl e
      | Inr text' \<Rightarrow> apply_marks_loop text' marks)"

definition apply_marks :: "json \<Rightarrow> json \<Rightarrow> exn + json" where
  "apply_marks text marks =
     (if \<not> truthy marks then Inr text
      else (case py_iter marks of Inl e \<Rightarrow> Inl e | Inr ms \<Rightarrow> apply_marks_loop text ms))"

text \<open>\<^verbatim>\<open>any(m.get("type") == "code" for m in marks)\<close> stops at the first code mark.\<close>

fun any_code :: "json list \<Rightarrow> exn + bool" where
  "any_code [] = Inr False"
| "any_code (m # ms) =
     (case py_get m ''type'' JNull of Inl e \<Rightarrow> Inl e
      | Inr t \<Rightarrow> if t = JStr ''code'' then Inr True else any_code ms)"

definition has_code_mark :: "json \<Rightarrow> exn + bool" where
  "has_code_mark node =
     (case py_get node ''type'' JNull of Inl e \<Rightarrow> Inl e
      | Inr ty \<Rightarrow>
          if ty \<noteq> JStr ''text'' then Inr False
          else (case py_get node ''marks'' (JList []) of Inl e \<Rightarrow> Inl e
                | Inr marks \<Rightarrow>
                    (case py_iter marks of Inl e \<Rightarrow> Inl e | Inr ms \<Rightarrow> any_code ms)))"

text \<open>\<^verbatim>\<open>[m for m in marks if m.get("type") != "code"]\<close> visits every mark.\<close>

fun non_code_marks :: "json list \<Rightarrow> exn + json list" where
  "non_code_marks [] = Inr []"
| "non_code_marks (m # ms) =
     (case py_get m ''type'' JNull of Inl e \<Rightarrow> Inl e
      | Inr t \<Rightarrow>
          (case non_code_marks ms of Inl e \<Rightarrow> Inl e
           | Inr r \<Rightarrow> Inr (if t \<noteq> JStr ''code'' then m # r else r)))"

definition get_text_without_code_mark :: "json \<Rightarrow> exn + json" where
  "get_text_without_code_mark node =
     (case py_get node ''text'' (JStr []) of Inl e \<Rightarrow> Inl e
      | Inr text \<Rightarrow>
          (case py_get node ''marks'' (JList []) of Inl e \<Rightarrow> Inl e
           | Inr marks \<Rightarrow>
               (case py_iter marks of Inl e \<Rightarrow> Inl e
                | Inr ms \<Rightarrow>
                    (case non_code_marks ms of Inl e \<Rightarrow> Inl e
                     | Inr ncm \<Rightarrow>
                         if ncm \<noteq> [] then apply_marks text (JList ncm) else Inr text))))"

section \<open>The sibling merger and the dispatcher\<close>

text \<open>
  \<^verbatim>\<open>flush_code_buffer\<close> appends to \<^verbatim>\<open>result_parts\<close> and clears \<^verbatim>\<open>code_buffer\<close>; the
  model takes both lists and returns both.
\<close>

definition fence :: "string \<Rightarrow> string" where
  "fence body = ''```'' @ [nl] @ body @ [nl] @ ''```''"

definition flush_code_buffer :: "json list \<Rightarrow> string list \<Rightarrow> json list \<times> string list" where
  "flush_code_buffer result_parts code_buffer =
     (if code_buffer \<noteq> [] then
        (if length code_buffer = 1 \<and> nl \<notin> set (hd code_buffer)
         then (result_parts @ [JStr ([bt] @ hd code_buffer @ [bt])], [])
         else (result_parts @ [JStr (fence (join_with [nl] code_buffer))], []))
      else (result_parts, code_buffer))"

text \<open>The test \<^verbatim>\<open>isinstance(item, dict) and _has_code_mark(item)\<close> of the loop.\<close>

definition code_marked :: "json \<Rightarrow> exn + bool" where
  "code_marked item = (case item of JDict d \<Rightarrow> has_code_mark item | _ \<Rightarrow> Inr False)"

text \<open>
  \<open>adf_to_text\<close> is the dispatcher, \<open>process_content_list\<close> the sibling merger and
  \<open>process_items\<close> its \<^verbatim>\<open>for item in items\<close> loop followed by the last flush and the
  join; the loop carries \<^verbatim>\<open>result_parts\<close> and \<^verbatim>\<open>code_buffer\<close>.
\<close>

function adf_to_text :: "json \<Rightarrow> exn + json"
  and process_content_list :: "json list \<Rightarrow> exn + json"
  and process_items :: "json list \<Rightarrow> json list \<Rightarrow> string list \<Rightarrow> exn + json"
where
  "adf_to_text JNull = Inr JNull"
| "adf_to_text (JStr s) = Inr (JStr s)"
| "adf_to_text (JList items) = process_content_list items"
| "adf_to_text (JDict d) =
     (if dget d ''type'' JNull = JStr ''text'' then
        (let text = dget d ''text'' (JStr []);
             marks = dget d ''marks'' (JList [])
         in if truthy marks then apply_marks text marks else Inr text)
      else if dget d ''type'' JNull = JStr ''hardBreak'' then Inr (JStr [nl])
      else if dget d ''type'' JNull = JStr ''mention'' then
        (case py_get (dget d ''attrs'' (JDict [])) ''text'' JNull of Inl e \<Rightarrow> Inl e
         | Inr t \<Rightarrow>
             if truthy t then Inr t
             else (case py_get (dget d ''attrs'' (JDict [])) ''id'' (JStr ''unknown'') of
                     Inl e \<Rightarrow> Inl e
                   | Inr i \<Rightarrow> fmt ''@'' i []))
      else if dget d ''type'' JNull = JStr ''emoji'' then
        (case py_get (dget d ''attrs'' (JDict [])) ''text'' JNull of Inl e \<Rightarrow> Inl e
         | Inr t \<Rightarrow>
             if truthy t then Inr t
             else py_get (dget d ''attrs'' (JDict [])) ''shortName'' (JStr []))
      else if dget d ''type'' JNull = JStr ''date'' then
        (case py_get (dget d ''attrs'' (JDict [])) ''timestamp'' JNull of Inl e \<Rightarrow> Inl e
         | Inr timestamp \<Rightarrow>
             if truthy timestamp then date_try timestamp else Inr (JStr []))
      else if dget d ''type'' JNull = JStr ''status'' then
        (case py_get (dget d ''attrs'' (JDict [])) ''text'' (JStr []) of Inl e \<Rightarrow> Inl e
         | Inr t \<Rightarrow> fmt ''['' t '']'')
      else if dget d ''type'' JNull = JStr ''inlineCard'' then
        (case py_get (dget d ''attrs'' (JDict [])) ''url'' JNull of Inl e \<Rightarrow> Inl e
         | Inr url \<Rightarrow>
             if truthy url then Inr url
             else (case py_get (dget d ''attrs'' (JDict [])) ''data'' (JDict []) of
                     Inl e \<Rightarrow> Inl e
                   | Inr data \<Rightarrow>
                       (case py_get data ''url'' JNull of Inl e \<Rightarrow> Inl e
                        | Inr u \<Rightarrow>
                            if truthy u then Inr u else py_get data ''name'' (JStr []))))
      else if dget d ''type'' JNull = JStr ''codeBlock'' then
        (case adf_to_text (dget d ''content'' (JList [])) of Inl e \<Rightarrow> Inl e
         | Inr r \<Rightarrow> fmt (''```'' @ [nl]) (if truthy r then r else JStr []) ([nl] @ ''```''))
      else if truthy (dget d ''content'' JNull) then adf_to_text (dget d ''content'' JNull)
      else Inr JNull)"
| "adf_to_text (JBool b) = Inr JNull"
| "adf_to_text (JInt n) = Inr JNull"
| "process_content_list items =
     (if items = [] then Inr JNull else process_items items [] [])"
| "process_items [] result_parts code_buffer =
     (case flush_code_buffer result_parts code_buffer of
        (parts, buf) \<Rightarrow> if parts \<noteq> [] then py_join_nl parts else Inr JNull)"
| "process_items (item # items) result_parts code_buffer =
     (case code_marked item of
        Inl e \<Rightarrow> Inl e
      | Inr True \<Rightarrow>
          (case get_text_without_code_mark item of Inl e \<Rightarrow> Inl e
           | Inr text \<Rightarrow>
               (case py_split_nl text of Inl e \<Rightarrow> Inl e
                | Inr lines \<Rightarrow> process_items items result_parts (code_buffer @ lines)))
      | Inr False \<Rightarrow>
          (case flush_code_buffer result_parts code_buffer of
             (parts, buf) \<Rightarrow>
               (case adf_to_text item of Inl e \<Rightarrow> Inl e
                | Inr text \<Rightarrow>
                    process_items items (if truthy text then parts @ [text] else parts) buf)))"
  by pat_completeness auto

termination
proof -
  have less: "size v < Suc (size_list (size_prod (\<lambda>_. 0) size) d)"
    if "map_of d k = Some v" for d :: "(string \<times> json) list" and k v
    using that by (induction d) (auto split: if_splits)
  have pos: "0 < size_list f d"
    if "map_of d k = Some v" for d :: "(string \<times> json) list" and k v f
    using that by (cases d) auto
  show ?thesis
    by (relation "measure (\<lambda>x. case x of
            Inl v \<Rightarrow> 2 * size v
          | Inr (Inl items) \<Rightarrow> 2 * size_list size items + 1
          | Inr (Inr (items, parts, buf)) \<Rightarrow> 2 * size_list size items)")
       (auto simp: dget_def pos split: option.splits dest: less)
qed

section \<open>Node shapes used in the statements\<close>

text \<open>A mark \<^verbatim>\<open>{"type": ty}\<close> without attributes.\<close>

definition mark :: "string \<Rightarrow> json" where
  "mark ty = JDict [(''type'', JStr ty)]"

text \<open>The text node \<^verbatim>\<open>{"type": "text", "text": t, "marks": marks}\<close>.\<close>

definition text_node :: "string \<Rightarrow> json list \<Rightarrow> json" where
  "text_node t marks =
     JDict [(''type'', JStr ''text''), (''text'', JStr t), (''marks'', JList marks)]"

text \<open>\<open>code t\<close> is a text node with a code mark, \<open>plain t\<close> a text node without marks.\<close>

definition code :: "string \<Rightarrow> json" where
  "code t = text_node t [mark ''code'']"

definition plain :: "string \<Rightarrow> json" where
  "plain t = JDict [(''type'', JStr ''text''), (''text'', JStr t)]"




definition recognized_types :: "json list" where
  "recognized_types = map JStr [''text'', ''hardBreak'', ''mention'', ''emoji'', ''date'', ''status'',
     ''inlineCard'', ''codeBlock'']"

definition date_node :: "json \<Rightarrow> json" where
  "date_node ts = JDict [(''type'', JStr ''date''), (''attrs'', JDict [(''timestamp'', ts)])]"

section \<open>The data model of the specification\<close>

text \<open>
  The shapes of section 3 of the specification. A mark is a mapping with a string \<open>type\<close>
  and, optionally, a mapping \<open>attrs\<close>. A node is a mapping with a string \<open>type\<close> and,
  optionally, a string \<open>text\<close>, a sequence \<open>marks\<close> of marks, a mapping \<open>attrs\<close> of
  arbitrary values and a sequence \<open>content\<close> of nodes. An input is absent, a string, a
  node, or a sequence of inputs.
\<close>

fun is_str :: "json \<Rightarrow> bool" where
  "is_str (JStr s) = True"
| "is_str _ = False"







definition card_with_data :: "json \<Rightarrow> json" where
  "card_with_data v = JDict [(''type'', JStr ''inlineCard''), (''attrs'', JDict [(''data'', v)])]"


text \<open>A small document with a paragraph of inline nodes, a date, and an unknown node.\<close>

definition sample_doc :: json where
  "sample_doc =
     JDict [(''type'', JStr ''doc''), (''version'', JInt 1),
       (''content'', JList [
          JDict [(''type'', JStr ''paragraph''),
            (''content'', JList [
               plain ''Hello '',
               JDict [(''type'', JStr ''mention''),
                 (''attrs'', JDict [(''id'', JStr ''123''), (''text'', JStr ''@John'')])],
               text_node ''now'' [mark ''strong'', mark ''textColor''],
               date_node (JStr ''1582152559000''),
               JDict [(''type'', JStr ''rule'')]])],
          JDict [(''type'', JStr ''codeBlock''), (''attrs'', JDict [(''language'', JInt 3)])]])]"

section \<open>The converter over a store of mutable objects\<close>

text \<open>
  Python lists and dictionaries are mutable objects that a caller shares with the converter.
  To say what a call does to them, the second model keeps them in a store: a value is
  \<^verbatim>\<open>None\<close>, a boolean, an integer, a string, or a reference to a list or a dictionary in
  the store. The store is a list of objects, the address of an object is its position, and a
  new object is put at the end. A reference beyond the end stands for an object of another
  type: it has no \<^verbatim>\<open>get\<close>, is not iterable, and is true.

  The source has no module-level variable, so the store is the whole state. Every function
  takes the store and returns its result and the new store. A loop reads its list again at
  each turn, as a Python list iterator does. The functions that loop or recurse take a
  budget of steps and stop with \<open>OutOfFuel\<close> when it is used up.
\<close>

type_synonym addr = nat

datatype val = VNone | VBool bool | VInt int | VStr string | VRef addr

datatype obj = OList "val list" | ODict "(string \<times> val) list"

type_synonym heap = "obj list"

datatype stop = Exn exn | OutOfFuel

type_synonym 'a hm = "heap \<Rightarrow> (stop + 'a) \<times> heap"

definition ret :: "'a \<Rightarrow> 'a hm" where
  "ret x h = (Inr x, h)"

definition throw :: "exn \<Rightarrow> 'a hm" where
  "throw e h = (Inl (Exn e), h)"

definition out_of_fuel :: "'a hm" where
  "out_of_fuel h = (Inl OutOfFuel, h)"

definition bindH :: "'a hm \<Rightarrow> ('a \<Rightarrow> 'b hm) \<Rightarrow> 'b hm" where
  "bindH m k h = (case m h of (Inl e, h') \<Rightarrow> (Inl e, h') | (Inr x, h') \<Rightarrow> k x h')"

text \<open>A pure computation that may raise, run in the current store.\<close>

definition lift :: "(heap \<Rightarrow> stop + 'a) \<Rightarrow> 'a hm" where
  "lift g h = (g h, h)"

definition lookup :: "heap \<Rightarrow> val \<Rightarrow> obj option" where
  "lookup h v = (case v of VRef a \<Rightarrow> if a < length h then Some (h ! a) else None | _ \<Rightarrow> None)"

text \<open>A new object: \<^verbatim>\<open>[]\<close>, \<^verbatim>\<open>{}\<close>, the result of a comprehension or of \<^verbatim>\<open>split\<close>.\<close>

definition alloc :: "obj \<Rightarrow> val hm" where
  "alloc ob h = (Inr (VRef (length h)), h @ [ob])"

text \<open>\<^verbatim>\<open>xs.append(v)\<close>, \<^verbatim>\<open>xs.extend(ys)\<close> and \<^verbatim>\<open>xs.clear()\<close> change the list object in place.\<close>

definition list_append :: "val \<Rightarrow> val \<Rightarrow> unit hm" where
  "list_append xs v h =
     (case xs of
        VRef a \<Rightarrow>
          (case lookup h xs of
             Some (OList l) \<Rightarrow> (Inr (), h[a := OList (l @ [v])])
           | _ \<Rightarrow> (Inl (Exn AttributeError), h))
      | _ \<Rightarrow> (Inl (Exn AttributeError), h))"

definition list_extend :: "val \<Rightarrow> val \<Rightarrow> unit hm" where
  "list_extend xs ys h =
     (case xs of
        VRef a \<Rightarrow>
          (case lookup h xs of
             Some (OList l) \<Rightarrow>
               (case lookup h ys of
                  Some (OList l') \<Rightarrow> (Inr (), h[a := OList (l @ l')])
                | _ \<Rightarrow> (Inl (Exn TypeError), h))
           | _ \<Rightarrow> (Inl (Exn AttributeError), h))
      | _ \<Rightarrow> (Inl (Exn AttributeError), h))"

definition list_clear :: "val \<Rightarrow> unit hm" where
  "list_clear xs h =
     (case xs of
        VRef a \<Rightarrow>
          (case lookup h xs of
             Some (OList l) \<Rightarrow> (Inr (), h[a := OList []])
           | _ \<Rightarrow> (Inl (Exn AttributeError), h))
      | _ \<Rightarrow> (Inl (Exn AttributeError), h))"

definition truthy_h :: "heap \<Rightarrow> val \<Rightarrow> bool" where
  "truthy_h h v =
     (case v of
        VNone \<Rightarrow> False
      | VBool b \<Rightarrow> b
      | VInt n \<Rightarrow> n \<noteq> 0
      | VStr s \<Rightarrow> s \<noteq> []
      | VRef a \<Rightarrow>
          (case lookup h v of
             Some (OList l) \<Rightarrow> l \<noteq> []
           | Some (ODict d) \<Rightarrow> d \<noteq> []
           | None \<Rightarrow> True))"

definition test :: "val \<Rightarrow> bool hm" where
  "test v = lift (\<lambda>h. Inr (truthy_h h v))"

text \<open>\<^verbatim>\<open>x.get(k, default)\<close>.\<close>

definition get_h :: "val \<Rightarrow> string \<Rightarrow> val \<Rightarrow> val hm" where
  "get_h x k dflt =
     lift (\<lambda>h. case lookup h x of
                 Some (ODict d) \<Rightarrow> Inr (case map_of d k of Some v \<Rightarrow> v | None \<Rightarrow> dflt)
               | _ \<Rightarrow> Inl (Exn AttributeError))"

text \<open>\<^verbatim>\<open>x.get(k, [])\<close> and \<^verbatim>\<open>x.get(k, {})\<close> make the default object first.\<close>

definition get_new :: "val \<Rightarrow> string \<Rightarrow> obj \<Rightarrow> val hm" where
  "get_new x k ob = bindH (alloc ob) (\<lambda>dflt. get_h x k dflt)"

text \<open>
  The element at position \<open>i\<close> of an iteration over \<open>x\<close>, or \<open>None\<close> at its end: the
  elements of a list, the characters of a string, the keys of a dictionary.
\<close>

definition next_h :: "val \<Rightarrow> nat \<Rightarrow> val option hm" where
  "next_h x i =
     lift (\<lambda>h. case x of
                 VStr s \<Rightarrow> Inr (if i < length s then Some (VStr [s ! i]) else None)
               | VRef a \<Rightarrow>
                   (case lookup h x of
                      Some (OList l) \<Rightarrow> Inr (if i < length l then Some (l ! i) else None)
                    | Some (ODict d) \<Rightarrow>
                        Inr (if i < length d then Some (VStr (fst (d ! i))) else None)
                    | None \<Rightarrow> Inl (Exn TypeError))
               | _ \<Rightarrow> Inl (Exn TypeError))"

subsection \<open>\<^verbatim>\<open>str\<close> of a value in the store\<close>

text \<open>
  The \<^verbatim>\<open>repr\<close> of a list or dictionary prints its elements; an object that contains
  itself is printed as \<^verbatim>\<open>[...]\<close> or \<^verbatim>\<open>{...}\<close> where it comes up again. \<open>act\<close> holds the
  addresses that are being printed.
\<close>

fun repr_h :: "nat \<Rightarrow> heap \<Rightarrow> addr list \<Rightarrow> val \<Rightarrow> stop + string"
  and repr_items_h :: "nat \<Rightarrow> heap \<Rightarrow> addr list \<Rightarrow> val list \<Rightarrow> stop + string list"
  and repr_entries_h :: "nat \<Rightarrow> heap \<Rightarrow> addr list \<Rightarrow> (string \<times> val) list \<Rightarrow> stop + string list"
where
  "repr_h 0 h act v = Inl OutOfFuel"
| "repr_h (Suc f) h act v =
     (case v of
        VNone \<Rightarrow> Inr ''None''
      | VBool b \<Rightarrow> Inr (if b then ''True'' else ''False'')
      | VInt i \<Rightarrow> (case repr_int i of Inl e \<Rightarrow> Inl (Exn e) | Inr s \<Rightarrow> Inr s)
      | VStr s \<Rightarrow> Inr (repr_str s)
      | VRef a \<Rightarrow>
          (case lookup h v of
             None \<Rightarrow> Inr ''<object>''
           | Some (OList l) \<Rightarrow>
               if a \<in> set act then Inr ''[...]''
               else (case repr_items_h f h (a # act) l of Inl e \<Rightarrow> Inl e
                     | Inr rs \<Rightarrow> Inr (''['' @ join_with '', '' rs @ '']''))
           | Some (ODict d) \<Rightarrow>
               if a \<in> set act then Inr ''{...}''
               else (case repr_entries_h f h (a # act) d of Inl e \<Rightarrow> Inl e
                     | Inr rs \<Rightarrow> Inr (''{'' @ join_with '', '' rs @ ''}''))))"
| "repr_items_h 0 h act l = Inl OutOfFuel"
| "repr_items_h (Suc f) h act [] = Inr []"
| "repr_items_h (Suc f) h act (x # xs) =
     (case repr_h f h act x of Inl e \<Rightarrow> Inl e
      | Inr r \<Rightarrow> (case repr_items_h f h act xs of Inl e \<Rightarrow> Inl e | Inr rs \<Rightarrow> Inr (r # rs)))"
| "repr_entries_h 0 h act d = Inl OutOfFuel"
| "repr_entries_h (Suc f) h act [] = Inr []"
| "repr_entries_h (Suc f) h act (kv # d) =
     (case repr_h f h act (snd kv) of Inl e \<Rightarrow> Inl e
      | Inr r \<Rightarrow> (case repr_entries_h f h act d of Inl e \<Rightarrow> Inl e
          | Inr rs \<Rightarrow> Inr ((repr_str (fst kv) @ '': '' @ r) # rs)))"

definition str_h :: "nat \<Rightarrow> val \<Rightarrow> string hm" where
  "str_h f v = lift (\<lambda>h. case v of VStr s \<Rightarrow> Inr s | _ \<Rightarrow> repr_h f h [] v)"

text \<open>The f-string \<^verbatim>\<open>f"<pre>{v}<post>"\<close>.\<close>

definition fmt_h :: "nat \<Rightarrow> string \<Rightarrow> val \<Rightarrow> string \<Rightarrow> val hm" where
  "fmt_h f pre v post = bindH (str_h f v) (\<lambda>s. ret (VStr (pre @ s @ post)))"

subsection \<open>The functions of the source over the store\<close>

definition apply_mark_h :: "nat \<Rightarrow> val \<Rightarrow> val \<Rightarrow> val hm" where
  "apply_mark_h f text m =
     bindH (get_h m ''type'' VNone) (\<lambda>mark_type.
       if mark_type = VStr ''code'' then fmt_h f ''`'' text ''`''
       else if mark_type = VStr ''strong'' then fmt_h f ''**'' text ''**''
       else if mark_type = VStr ''em'' then fmt_h f ''*'' text ''*''
       else if mark_type = VStr ''strike'' then fmt_h f ''~~'' text ''~~''
       else if mark_type = VStr ''underline'' then fmt_h f ''<u>'' text ''</u>''
       else if mark_type = VStr ''link'' then
         bindH (get_new m ''attrs'' (ODict [])) (\<lambda>attrs.
         bindH (get_h attrs ''href'' (VStr [])) (\<lambda>href.
         bindH (test href) (\<lambda>b.
           if b then
             bindH (str_h f text) (\<lambda>t.
             bindH (str_h f href) (\<lambda>u. ret (VStr (''['' @ t @ '']('' @ u @ '')''))))
           else ret text)))
       else if mark_type = VStr ''subsup'' then
         bindH (get_new m ''attrs'' (ODict [])) (\<lambda>attrs.
         bindH (get_h attrs ''type'' VNone) (\<lambda>subsup_type.
           if subsup_type = VStr ''sub'' then fmt_h f ''<sub>'' text ''</sub>''
           else if subsup_type = VStr ''sup'' then fmt_h f ''<sup>'' text ''</sup>''
           else ret text))
       else ret text)"

text \<open>The loop \<^verbatim>\<open>for mark in marks\<close> of \<^verbatim>\<open>_apply_marks\<close>, from position \<open>i\<close>.\<close>

fun apply_marks_loop_h :: "nat \<Rightarrow> val \<Rightarrow> val \<Rightarrow> nat \<Rightarrow> val hm" where
  "apply_marks_loop_h 0 text marks i = out_of_fuel"
| "apply_marks_loop_h (Suc f) text marks i =
     bindH (next_h marks i) (\<lambda>nx.
       case nx of
         None \<Rightarrow> ret text
       | Some m \<Rightarrow>
           bindH (apply_mark_h f text m) (\<lambda>text'.
             apply_marks_loop_h f text' marks (Suc i)))"

definition apply_marks_h :: "nat \<Rightarrow> val \<Rightarrow> val \<Rightarrow> val hm" where
  "apply_marks_h f text marks =
     bindH (test marks) (\<lambda>b. if \<not> b then ret text else apply_marks_loop_h f text marks 0)"

fun any_code_h :: "nat \<Rightarrow> val \<Rightarrow> nat \<Rightarrow> bool hm" where
  "any_code_h 0 marks i = out_of_fuel"
| "any_code_h (Suc f) marks i =
     bindH (next_h marks i) (\<lambda>nx.
       case nx of
         None \<Rightarrow> ret False
       | Some m \<Rightarrow>
           bindH (get_h m ''type'' VNone) (\<lambda>t.
             if t = VStr ''code'' then ret True else any_code_h f marks (Suc i)))"

definition has_code_mark_h :: "nat \<Rightarrow> val \<Rightarrow> bool hm" where
  "has_code_mark_h f node =
     bindH (get_h node ''type'' VNone) (\<lambda>ty.
       if ty \<noteq> VStr ''text'' then ret False
       else bindH (get_new node ''marks'' (OList [])) (\<lambda>marks. any_code_h f marks 0))"

text \<open>
  The comprehension \<^verbatim>\<open>[m for m in marks if m.get("type") != "code"]\<close> fills the new
  list \<open>res\<close>.
\<close>

fun non_code_marks_h :: "nat \<Rightarrow> val \<Rightarrow> nat \<Rightarrow> val \<Rightarrow> unit hm" where
  "non_code_marks_h 0 marks i res = out_of_fuel"
| "non_code_marks_h (Suc f) marks i res =
     bindH (next_h marks i) (\<lambda>nx.
       case nx of
         None \<Rightarrow> ret ()
       | Some m \<Rightarrow>
           bindH (get_h m ''type'' VNone) (\<lambda>t.
           bindH (if t \<noteq> VStr ''code'' then list_append res m else ret ()) (\<lambda>_.
             non_code_marks_h f marks (Suc i) res)))"

definition get_text_without_code_mark_h :: "nat \<Rightarrow> val \<Rightarrow> val hm" where
  "get_text_without_code_mark_h f node =
     bindH (get_h node ''text'' (VStr [])) (\<lambda>text.
     bindH (get_new node ''marks'' (OList [])) (\<lambda>marks.
     bindH (alloc (OList [])) (\<lambda>non_code.
     bindH (non_code_marks_h f marks 0 non_code) (\<lambda>_.
     bindH (test non_code) (\<lambda>b.
       if b then apply_marks_h f text non_code else ret text)))))"

text \<open>\<^verbatim>\<open>text.split("\n")\<close> makes a new list of the lines.\<close>

definition split_h :: "val \<Rightarrow> val hm" where
  "split_h text =
     (case text of
        VStr s \<Rightarrow> alloc (OList (map VStr (split_nl s)))
      | _ \<Rightarrow> throw AttributeError)"

fun strs_of_val :: "val list \<Rightarrow> exn + string list" where
  "strs_of_val [] = Inr []"
| "strs_of_val (VStr s # vs) =
     (case strs_of_val vs of Inl e \<Rightarrow> Inl e | Inr ss \<Rightarrow> Inr (s # ss))"
| "strs_of_val (_ # vs) = Inl TypeError"

text \<open>The strings of the list object \<open>xs\<close>, as \<^verbatim>\<open>"\n".join(xs)\<close> reads them.\<close>

definition strings_h :: "val \<Rightarrow> string list hm" where
  "strings_h xs =
     lift (\<lambda>h. case lookup h xs of
                 Some (OList l) \<Rightarrow>
                   (case strs_of_val l of Inl e \<Rightarrow> Inl (Exn e) | Inr ss \<Rightarrow> Inr ss)
               | _ \<Rightarrow> Inl (Exn TypeError))"

text \<open>
  \<^verbatim>\<open>flush_code_buffer\<close>, on the list objects \<^verbatim>\<open>result_parts\<close> and \<^verbatim>\<open>code_buffer\<close>. The
  buffer is filled with the lines of a split only; the model reads its elements as the
  join does.
\<close>

definition flush_code_buffer_h :: "val \<Rightarrow> val \<Rightarrow> unit hm" where
  "flush_code_buffer_h result_parts code_buffer =
     bindH (test code_buffer) (\<lambda>b.
       if b then
         bindH (strings_h code_buffer) (\<lambda>lines.
         bindH (list_append result_parts
                  (VStr (if length lines = 1 \<and> nl \<notin> set (hd lines)
                         then [bt] @ hd lines @ [bt]
                         else fence (join_with [nl] lines)))) (\<lambda>_.
           list_clear code_buffer))
       else ret ())"

fun int_h :: "val \<Rightarrow> exn + int" where
  "int_h (VInt n) = Inr n"
| "int_h (VBool b) = Inr (if b then 1 else 0)"
| "int_h (VStr s) = int_of_str s"
| "int_h _ = Inl TypeError"

definition date_try_h :: "nat \<Rightarrow> val \<Rightarrow> val hm" where
  "date_try_h f timestamp =
     (case (case int_h timestamp of Inl e \<Rightarrow> Inl e | Inr ms \<Rightarrow> fromtimestamp_ymd ms) of
        Inr s \<Rightarrow> ret (VStr s)
      | Inl e \<Rightarrow>
          if e = ValueError \<or> e = OSError \<or> e = TypeError
          then bindH (str_h f timestamp) (\<lambda>s. ret (VStr s))
          else throw e)"

text \<open>
  The branches of the dispatcher that do not recurse, for a node of type \<open>ty\<close>, one of
  \<open>inline_types\<close>. The source reads the type anew in each test; nothing is written
  between the tests, so the model reads it once.
\<close>

definition inline_node_h :: "nat \<Rightarrow> val \<Rightarrow> val \<Rightarrow> val hm" where
  "inline_node_h f node ty =
     (if ty = VStr ''text'' then
        bindH (get_h node ''text'' (VStr [])) (\<lambda>text.
        bindH (get_new node ''marks'' (OList [])) (\<lambda>marks.
        bindH (test marks) (\<lambda>b. if b then apply_marks_h f text marks else ret text)))
      else if ty = VStr ''hardBreak'' then ret (VStr [nl])
      else if ty = VStr ''mention'' then
        bindH (get_new node ''attrs'' (ODict [])) (\<lambda>attrs.
        bindH (get_h attrs ''text'' VNone) (\<lambda>t.
        bindH (test t) (\<lambda>b.
          if b then ret t
          else bindH (get_h attrs ''id'' (VStr ''unknown'')) (\<lambda>i. fmt_h f ''@'' i []))))
      else if ty = VStr ''emoji'' then
        bindH (get_new node ''attrs'' (ODict [])) (\<lambda>attrs.
        bindH (get_h attrs ''text'' VNone) (\<lambda>t.
        bindH (test t) (\<lambda>b.
          if b then ret t else get_h attrs ''shortName'' (VStr []))))
      else if ty = VStr ''date'' then
        bindH (get_new node ''attrs'' (ODict [])) (\<lambda>attrs.
        bindH (get_h attrs ''timestamp'' VNone) (\<lambda>timestamp.
        bindH (test timestamp) (\<lambda>b.
          if b then date_try_h f timestamp else ret (VStr []))))
      else if ty = VStr ''status'' then
        bindH (get_new node ''attrs'' (ODict [])) (\<lambda>attrs.
        bindH (get_h attrs ''text'' (VStr [])) (\<lambda>t. fmt_h f ''['' t '']''))
      else if ty = VStr ''inlineCard'' then
        bindH (get_new node ''attrs'' (ODict [])) (\<lambda>attrs.
        bindH (get_h attrs ''url'' VNone) (\<lambda>url.
        bindH (test url) (\<lambda>b.
          if b then ret url
          else
            bindH (get_new attrs ''data'' (ODict [])) (\<lambda>data.
            bindH (get_h data ''url'' VNone) (\<lambda>u.
            bindH (test u) (\<lambda>b'.
              if b' then ret u else get_h data ''name'' (VStr [])))))))
      else ret VNone)"

definition inline_types :: "val list" where
  "inline_types = map VStr [''text'', ''hardBreak'', ''mention'', ''emoji'', ''date'', ''status'',
     ''inlineCard'']"

text \<open>
  The dispatcher, the sibling merger and its loop. \<open>process_items_h\<close> is the loop
  \<^verbatim>\<open>for item in items\<close> from position \<open>i\<close>, followed by the last flush and the join.
\<close>

fun adf_to_text_h :: "nat \<Rightarrow> val \<Rightarrow> val hm"
  and process_content_list_h :: "nat \<Rightarrow> val \<Rightarrow> val hm"
  and process_items_h :: "nat \<Rightarrow> val \<Rightarrow> nat \<Rightarrow> val \<Rightarrow> val \<Rightarrow> val hm"
where
  "adf_to_text_h 0 v = out_of_fuel"
| "adf_to_text_h (Suc f) v =
     (case v of
        VNone \<Rightarrow> ret VNone
      | VStr s \<Rightarrow> ret (VStr s)
      | VRef a \<Rightarrow>
          bindH (lift (\<lambda>h. Inr (lookup h v))) (\<lambda>ob.
            case ob of
              Some (OList l) \<Rightarrow> process_content_list_h f v
            | Some (ODict d) \<Rightarrow>
                bindH (get_h v ''type'' VNone) (\<lambda>ty.
                  if ty \<in> set inline_types then inline_node_h f v ty
                  else if ty = VStr ''codeBlock'' then
                    bindH (get_new v ''content'' (OList [])) (\<lambda>content.
                    bindH (adf_to_text_h f content) (\<lambda>r.
                    bindH (test r) (\<lambda>b.
                      fmt_h f (''```'' @ [nl]) (if b then r else VStr []) ([nl] @ ''```''))))
                  else
                    bindH (get_h v ''content'' VNone) (\<lambda>content.
                    bindH (test content) (\<lambda>b.
                      if b then adf_to_text_h f content else ret VNone)))
            | None \<Rightarrow> ret VNone)
      | _ \<Rightarrow> ret VNone)"
| "process_content_list_h 0 items = out_of_fuel"
| "process_content_list_h (Suc f) items =
     bindH (test items) (\<lambda>b.
       if \<not> b then ret VNone
       else
         bindH (alloc (OList [])) (\<lambda>result_parts.
         bindH (alloc (OList [])) (\<lambda>code_buffer.
           process_items_h f items 0 result_parts code_buffer)))"
| "process_items_h 0 items i result_parts code_buffer = out_of_fuel"
| "process_items_h (Suc f) items i result_parts code_buffer =
     bindH (next_h items i) (\<lambda>nx.
       case nx of
         None \<Rightarrow>
           bindH (flush_code_buffer_h result_parts code_buffer) (\<lambda>_.
           bindH (test result_parts) (\<lambda>b.
             if b then bindH (strings_h result_parts) (\<lambda>ss. ret (VStr (join_with [nl] ss)))
             else ret VNone))
       | Some item \<Rightarrow>
           bindH (lift (\<lambda>h. Inr (lookup h item))) (\<lambda>ob.
           bindH (case ob of Some (ODict d) \<Rightarrow> has_code_mark_h f item | _ \<Rightarrow> ret False) (\<lambda>c.
             if c then
               bindH (get_text_without_code_mark_h f item) (\<lambda>text.
               bindH (split_h text) (\<lambda>lines.
               bindH (list_extend code_buffer lines) (\<lambda>_.
                 process_items_h f items (Suc i) result_parts code_buffer)))
             else
               bindH (flush_code_buffer_h result_parts code_buffer) (\<lambda>_.
               bindH (adf_to_text_h f item) (\<lambda>text.
               bindH (test text) (\<lambda>b.
               bindH (if b then list_append result_parts text else ret ()) (\<lambda>_.
                 process_items_h f items (Suc i) result_parts code_buffer)))))))"

subsection \<open>A document in the store\<close>

text \<open>
  \<open>store\<close> puts a document into the store as a JSON decoder builds it: the elements
  first, then the list or dictionary that holds them, each a new object.
\<close>

fun store :: "json \<Rightarrow> heap \<Rightarrow> val \<times> heap"
  and store_list :: "json list \<Rightarrow> heap \<Rightarrow> val list \<times> heap"
  and store_entries :: "(string \<times> json) list \<Rightarrow> heap \<Rightarrow> (string \<times> val) list \<times> heap"
where
  "store JNull h = (VNone, h)"
| "store (JBool b) h = (VBool b, h)"
| "store (JInt n) h = (VInt n, h)"
| "store (JStr s) h = (VStr s, h)"
| "store (JList xs) h =
     (case store_list xs h of (vs, h') \<Rightarrow> (VRef (length h'), h' @ [OList vs]))"
| "store (JDict d) h =
     (case store_entries d h of (es, h') \<Rightarrow> (VRef (length h'), h' @ [ODict es]))"
| "store_list [] h = ([], h)"
| "store_list (x # xs) h =
     (case store x h of (v, h') \<Rightarrow>
        (case store_list xs h' of (vs, h'') \<Rightarrow> (v # vs, h'')))"
| "store_entries [] h = ([], h)"
| "store_entries (kv # d) h =
     (case store (snd kv) h of (v, h') \<Rightarrow>
        (case store_entries d h' of (es, h'') \<Rightarrow> ((fst kv, v) # es, h'')))"


subsection \<open>What a call leaves of the store\<close>

text \<open>
  \<open>frame n m\<close>: the computation \<open>m\<close>, started in a store of at least \<open>n\<close> objects, ends
  in a store whose first \<open>n\<close> objects are the ones it started with. \<open>fresh n v\<close>: the value
  \<open>v\<close> does not refer to one of the first \<open>n\<close> objects.
\<close>

definition frame :: "nat \<Rightarrow> 'a hm \<Rightarrow> bool" where
  "frame n m = (\<forall>h. n \<le> length h \<longrightarrow> n \<le> length (snd (m h)) \<and> take n (snd (m h)) = take n h)"

definition fresh :: "nat \<Rightarrow> val \<Rightarrow> bool" where
  "fresh n v = (case v of VRef a \<Rightarrow> n \<le> a | _ \<Rightarrow> True)"

text \<open>
  \<open>old n v\<close>: the value \<open>v\<close> is not a reference, or refers to one of the first \<open>n\<close>
  objects. \<open>closed_store n h\<close>: the store has at least \<open>n\<close> objects and no object in it
  holds a reference to an object after the first \<open>n\<close>. \<open>keeps n P m\<close>: started in such a
  store, \<open>m\<close> ends in such a store, and a result that it returns satisfies \<open>P\<close>.
\<close>

definition old :: "nat \<Rightarrow> val \<Rightarrow> bool" where
  "old n v = (case v of VRef a \<Rightarrow> a < n | _ \<Rightarrow> True)"

definition obj_vals :: "obj \<Rightarrow> val list" where
  "obj_vals ob = (case ob of OList l \<Rightarrow> l | ODict d \<Rightarrow> map snd d)"

definition closed_store :: "nat \<Rightarrow> heap \<Rightarrow> bool" where
  "closed_store n h = (n \<le> length h \<and> list_all (\<lambda>ob. list_all (old n) (obj_vals ob)) h)"

definition keeps :: "nat \<Rightarrow> ('a \<Rightarrow> bool) \<Rightarrow> 'a hm \<Rightarrow> bool" where
  "keeps n P m =
     (\<forall>h. closed_store n h \<longrightarrow>
        closed_store n (snd (m h)) \<and> (\<forall>x. fst (m h) = Inr x \<longrightarrow> P x))"

text \<open>The sample document, put into an empty store.\<close>

definition sample_store :: "val \<times> heap" where
  "sample_store = store sample_doc []"

section \<open>What the converter needs of attribute values\<close>

text \<open>
  The data model leaves the values of \<open>attrs\<close> open, and the source reads them without a
  check. These are the conditions under which it raises nothing.

  \<open>printable v\<close>: \<^verbatim>\<open>str(v)\<close> prints \<open>v\<close>, which it does unless an integer of more than
  4300 digits is inside. \<open>joinable v\<close>: \<open>v\<close> may be the result of converting an element
  of a sequence, a string or a value that is false (which the merger drops); another value
  makes \<^verbatim>\<open>"\n".join\<close> raise. \<open>fits joined v\<close>: \<open>v\<close> may be a result in the place where
  the node stands, inside a sequence (\<open>joined\<close>) or not.
\<close>

fun printable :: "json \<Rightarrow> bool"
  and printable_items :: "json list \<Rightarrow> bool"
  and printable_entries :: "(string \<times> json) list \<Rightarrow> bool"
where
  "printable JNull = True"
| "printable (JBool b) = True"
| "printable (JInt i) = (length (show_dec \<bar>i\<bar>) \<le> int_max_str_digits)"
| "printable (JStr s) = True"
| "printable (JList xs) = printable_items xs"
| "printable (JDict d) = printable_entries d"
| "printable_items [] = True"
| "printable_items (x # xs) = (printable x \<and> printable_items xs)"
| "printable_entries [] = True"
| "printable_entries (kv # d) = (printable (snd kv) \<and> printable_entries d)"

definition joinable :: "json \<Rightarrow> bool" where
  "joinable v = (is_str v \<or> \<not> truthy v)"

definition fits :: "bool \<Rightarrow> json \<Rightarrow> bool" where
  "fits joined v = (if joined then joinable v else True)"

text \<open>
  A timestamp that is true: when \<^verbatim>\<open>int\<close> accepts it, the number of milliseconds is
  inside the range of the time type; when \<^verbatim>\<open>int\<close> rejects it, it can be printed.
\<close>

definition timestamp_ok :: "json \<Rightarrow> bool" where
  "timestamp_ok ts =
     (case py_int ts of Inr ms \<Rightarrow> \<not> time_t_overflow ms | Inl e \<Rightarrow> printable ts)"




text \<open>The call returns.\<close>

definition returns :: "exn + json \<Rightarrow> bool" where
  "returns r = (case r of Inl e \<Rightarrow> False | Inr v \<Rightarrow> True)"

text \<open>The call returns a value that fits the place of the node.\<close>

definition returns_fitting :: "bool \<Rightarrow> exn + json \<Rightarrow> bool" where
  "returns_fitting joined r = (case r of Inl e \<Rightarrow> False | Inr v \<Rightarrow> fits joined v)"

text \<open>The depth to which lists and dictionaries are nested in a value.\<close>

fun nesting :: "json \<Rightarrow> nat"
  and nesting_items :: "json list \<Rightarrow> nat"
  and nesting_entries :: "(string \<times> json) list \<Rightarrow> nat"
where
  "nesting JNull = 0"
| "nesting (JBool b) = 0"
| "nesting (JInt i) = 0"
| "nesting (JStr s) = 0"
| "nesting (JList xs) = Suc (nesting_items xs)"
| "nesting (JDict d) = Suc (nesting_entries d)"
| "nesting_items [] = 0"
| "nesting_items (x # xs) = max (nesting x) (nesting_items xs)"
| "nesting_entries [] = 0"
| "nesting_entries (kv # d) = max (nesting (snd kv)) (nesting_entries d)"


section \<open>The converter with a bounded call stack\<close>

text \<open>
  The interpreter bounds the depth of nested calls and raises \<^verbatim>\<open>RecursionError\<close> when a
  call would go beyond it. The functions of the sections above have no such bound. The
  functions of this section are the same functions with the number \<open>d\<close> of frames that are
  left, counted as CPython 3.11 counts the frames of interpreted code:
  \<^item> a call of a function of the source takes one frame for as long as it runs, and is
    refused when none is left;
  \<^item> the generator expression of \<^verbatim>\<open>any\<close> and the list comprehension each run in a frame
    of their own, which they take after their iterable has been evaluated;
  \<^item> printing a value that is not a string takes one level of the same bound for as long
    as it lasts (\<^verbatim>\<open>PyObject_Str\<close> and \<^verbatim>\<open>PyObject_Repr\<close> enter one), so a list or a
    dictionary takes one level more than the deepest of its elements; a string that is
    printed by itself takes none;
  \<^item> the level that the interpreter takes for the time of a call of a built-in function or
    method (\<^verbatim>\<open>isinstance\<close>, \<^verbatim>\<open>get\<close>, \<^verbatim>\<open>split\<close>, \<^verbatim>\<open>join\<close>, \<^verbatim>\<open>int\<close>, the functions of
    \<^verbatim>\<open>datetime\<close>) is not counted: it depends on the state of the interpreter, and adds a
    constant that does not depend on the input.
  So a call that the functions of this section refuse is refused by the interpreter too.
  Nothing in the source catches \<^verbatim>\<open>RecursionError\<close>.
\<close>

fun py_repr_lim :: "nat \<Rightarrow> json \<Rightarrow> exn + string"
  and repr_items_lim :: "nat \<Rightarrow> json list \<Rightarrow> exn + string list"
  and repr_entries_lim :: "nat \<Rightarrow> (string \<times> json) list \<Rightarrow> exn + string list"
where
  "py_repr_lim 0 v = Inl RecursionError"
| "py_repr_lim (Suc d) JNull = Inr ''None''"
| "py_repr_lim (Suc d) (JBool b) = Inr (if b then ''True'' else ''False'')"
| "py_repr_lim (Suc d) (JInt i) = repr_int i"
| "py_repr_lim (Suc d) (JStr s) = Inr (repr_str s)"
| "py_repr_lim (Suc d) (JList xs) =
     (case repr_items_lim d xs of Inl e \<Rightarrow> Inl e
      | Inr rs \<Rightarrow> Inr (''['' @ join_with '', '' rs @ '']''))"
| "py_repr_lim (Suc d) (JDict kvs) =
     (case repr_entries_lim d kvs of Inl e \<Rightarrow> Inl e
      | Inr rs \<Rightarrow> Inr (''{'' @ join_with '', '' rs @ ''}''))"
| "repr_items_lim d [] = Inr []"
| "repr_items_lim d (x # xs) =
     (case py_repr_lim d x of Inl e \<Rightarrow> Inl e
      | Inr r \<Rightarrow> (case repr_items_lim d xs of Inl e \<Rightarrow> Inl e | Inr rs \<Rightarrow> Inr (r # rs)))"
| "repr_entries_lim d [] = Inr []"
| "repr_entries_lim d (kv # kvs) =
     (case py_repr_lim d (snd kv) of Inl e \<Rightarrow> Inl e
      | Inr r \<Rightarrow> (case repr_entries_lim d kvs of Inl e \<Rightarrow> Inl e
          | Inr rs \<Rightarrow> Inr ((repr_str (fst kv) @ '': '' @ r) # rs)))"

fun py_str_lim :: "nat \<Rightarrow> json \<Rightarrow> exn + string" where
  "py_str_lim d (JStr s) = Inr s"
| "py_str_lim d v = py_repr_lim d v"

definition fmt_lim :: "nat \<Rightarrow> string \<Rightarrow> json \<Rightarrow> string \<Rightarrow> exn + json" where
  "fmt_lim d pre v post =
     (case py_str_lim d v of Inl e \<Rightarrow> Inl e | Inr s \<Rightarrow> Inr (JStr (pre @ s @ post)))"

definition date_try_lim :: "nat \<Rightarrow> json \<Rightarrow> exn + json" where
  "date_try_lim d timestamp =
     (case (case py_int timestamp of Inl e \<Rightarrow> Inl e | Inr ms \<Rightarrow> fromtimestamp_ymd ms) of
        Inr s \<Rightarrow> Inr (JStr s)
      | Inl e \<Rightarrow>
          if e = ValueError \<or> e = OSError \<or> e = TypeError
          then (case py_str_lim d timestamp of Inl e' \<Rightarrow> Inl e' | Inr s \<Rightarrow> Inr (JStr s))
          else Inl e)"

definition apply_mark_lim :: "nat \<Rightarrow> json \<Rightarrow> json \<Rightarrow> exn + json" where
  "apply_mark_lim d text m =
     (case py_get m ''type'' JNull of Inl e \<Rightarrow> Inl e
      | Inr mark_type \<Rightarrow>
          if mark_type = JStr ''code'' then fmt_lim d ''`'' text ''`''
          else if mark_type = JStr ''strong'' then fmt_lim d ''**'' text ''**''
          else if mark_type = JStr ''em'' then fmt_lim d ''*'' text ''*''
          else if mark_type = JStr ''strike'' then fmt_lim d ''~~'' text ''~~''
          else if mark_type = JStr ''underline'' then fmt_lim d ''<u>'' text ''</u>''
          else if mark_type = JStr ''link'' then
            (case py_get m ''attrs'' (JDict []) of Inl e \<Rightarrow> Inl e
             | Inr attrs \<Rightarrow>
                 (case py_get attrs ''href'' (JStr []) of Inl e \<Rightarrow> Inl e
                  | Inr href \<Rightarrow>
                      if truthy href then
                        (case py_str_lim d text of Inl e \<Rightarrow> Inl e
                         | Inr t \<Rightarrow>
                             (case py_str_lim d href of Inl e \<Rightarrow> Inl e
                              | Inr h \<Rightarrow> Inr (JStr (''['' @ t @ '']('' @ h @ '')''))))
                      else Inr text))
          else if mark_type = JStr ''subsup'' then
            (case py_get m ''attrs'' (JDict []) of Inl e \<Rightarrow> Inl e
             | Inr attrs \<Rightarrow>
                 (case py_get attrs ''type'' JNull of Inl e \<Rightarrow> Inl e
                  | Inr subsup_type \<Rightarrow>
                      if subsup_type = JStr ''sub'' then fmt_lim d ''<sub>'' text ''</sub>''
                      else if subsup_type = JStr ''sup'' then fmt_lim d ''<sup>'' text ''</sup>''
                      else Inr text))
          else Inr text)"

fun apply_marks_loop_lim :: "nat \<Rightarrow> json \<Rightarrow> json list \<Rightarrow> exn + json" where
  "apply_marks_loop_lim d text [] = Inr text"
| "apply_marks_loop_lim d text (m # ms) =
     (case apply_mark_lim d text m of Inl e \<Rightarrow> Inl e
      | Inr text' \<Rightarrow> apply_marks_loop_lim d text' ms)"

text \<open>
  The call \<^verbatim>\<open>_apply_marks(text, marks)\<close> with \<open>d\<close> frames left: the call takes one, the
  body runs with the others.
\<close>

definition apply_marks_lim :: "nat \<Rightarrow> json \<Rightarrow> json \<Rightarrow> exn + json" where
  "apply_marks_lim d text marks =
     (case d of
        0 \<Rightarrow> Inl RecursionError
      | Suc d' \<Rightarrow>
          if \<not> truthy marks then Inr text
          else (case py_iter marks of Inl e \<Rightarrow> Inl e
                | Inr ms \<Rightarrow> apply_marks_loop_lim d' text ms))"

definition has_code_mark_lim :: "nat \<Rightarrow> json \<Rightarrow> exn + bool" where
  "has_code_mark_lim d node =
     (case d of
        0 \<Rightarrow> Inl RecursionError
      | Suc d' \<Rightarrow>
          (case py_get node ''type'' JNull of Inl e \<Rightarrow> Inl e
           | Inr ty \<Rightarrow>
               if ty \<noteq> JStr ''text'' then Inr False
               else (case py_get node ''marks'' (JList []) of Inl e \<Rightarrow> Inl e
                     | Inr marks \<Rightarrow>
                         (case py_iter marks of Inl e \<Rightarrow> Inl e
                          | Inr ms \<Rightarrow>
                              (case d' of 0 \<Rightarrow> Inl RecursionError
                               | Suc d'' \<Rightarrow> any_code ms)))))"

definition code_marked_lim :: "nat \<Rightarrow> json \<Rightarrow> exn + bool" where
  "code_marked_lim d item =
     (case item of JDict kvs \<Rightarrow> has_code_mark_lim d item | _ \<Rightarrow> Inr False)"

definition get_text_without_code_mark_lim :: "nat \<Rightarrow> json \<Rightarrow> exn + json" where
  "get_text_without_code_mark_lim d node =
     (case d of
        0 \<Rightarrow> Inl RecursionError
      | Suc d' \<Rightarrow>
          (case py_get node ''text'' (JStr []) of Inl e \<Rightarrow> Inl e
           | Inr text \<Rightarrow>
               (case py_get node ''marks'' (JList []) of Inl e \<Rightarrow> Inl e
                | Inr marks \<Rightarrow>
                    (case py_iter marks of Inl e \<Rightarrow> Inl e
                     | Inr ms \<Rightarrow>
                         (case d' of 0 \<Rightarrow> Inl RecursionError
                          | Suc d'' \<Rightarrow>
                              (case non_code_marks ms of Inl e \<Rightarrow> Inl e
                               | Inr ncm \<Rightarrow>
                                   if ncm \<noteq> [] then apply_marks_lim d' text (JList ncm)
                                   else Inr text))))))"

definition flush_code_buffer_lim ::
  "nat \<Rightarrow> json list \<Rightarrow> string list \<Rightarrow> exn + json list \<times> string list" where
  "flush_code_buffer_lim d result_parts code_buffer =
     (case d of
        0 \<Rightarrow> Inl RecursionError
      | Suc d' \<Rightarrow> Inr (flush_code_buffer result_parts code_buffer))"

text \<open>
  \<open>adf_to_text_lim d v\<close> is the call \<^verbatim>\<open>adf_to_text(v)\<close> with \<open>d\<close> frames left, and so is
  \<open>process_content_list_lim\<close>; \<open>process_items_lim d\<close> is the loop inside the merger, whose
  calls have \<open>d\<close> frames left.
\<close>

function adf_to_text_lim :: "nat \<Rightarrow> json \<Rightarrow> exn + json"
  and process_content_list_lim :: "nat \<Rightarrow> json list \<Rightarrow> exn + json"
  and process_items_lim :: "nat \<Rightarrow> json list \<Rightarrow> json list \<Rightarrow> string list \<Rightarrow> exn + json"
where
  "adf_to_text_lim 0 v = Inl RecursionError"
| "adf_to_text_lim (Suc d) JNull = Inr JNull"
| "adf_to_text_lim (Suc d) (JStr s) = Inr (JStr s)"
| "adf_to_text_lim (Suc d) (JList items) = process_content_list_lim d items"
| "adf_to_text_lim (Suc d) (JDict kvs) =
     (if dget kvs ''type'' JNull = JStr ''text'' then
        (let text = dget kvs ''text'' (JStr []);
             marks = dget kvs ''marks'' (JList [])
         in if truthy marks then apply_marks_lim d text marks else Inr text)
      else if dget kvs ''type'' JNull = JStr ''hardBreak'' then Inr (JStr [nl])
      else if dget kvs ''type'' JNull = JStr ''mention'' then
        (case py_get (dget kvs ''attrs'' (JDict [])) ''text'' JNull of Inl e \<Rightarrow> Inl e
         | Inr t \<Rightarrow>
             if truthy t then Inr t
             else (case py_get (dget kvs ''attrs'' (JDict [])) ''id'' (JStr ''unknown'') of
                     Inl e \<Rightarrow> Inl e
                   | Inr i \<Rightarrow> fmt_lim d ''@'' i []))
      else if dget kvs ''type'' JNull = JStr ''emoji'' then
        (case py_get (dget kvs ''attrs'' (JDict [])) ''text'' JNull of Inl e \<Rightarrow> Inl e
         | Inr t \<Rightarrow>
             if truthy t then Inr t
             else py_get (dget kvs ''attrs'' (JDict [])) ''shortName'' (JStr []))
      else if dget kvs ''type'' JNull = JStr ''date'' then
        (case py_get (dget kvs ''attrs'' (JDict [])) ''timestamp'' JNull of Inl e \<Rightarrow> Inl e
         | Inr timestamp \<Rightarrow>
             if truthy timestamp then date_try_lim d timestamp else Inr (JStr []))
      else if dget kvs ''type'' JNull = JStr ''status'' then
        (case py_get (dget kvs ''attrs'' (JDict [])) ''text'' (JStr []) of Inl e \<Rightarrow> Inl e
         | Inr t \<Rightarrow> fmt_lim d ''['' t '']'')
      else if dget kvs ''type'' JNull = JStr ''inlineCard'' then
        (case py_get (dget kvs ''attrs'' (JDict [])) ''url'' JNull of Inl e \<Rightarrow> Inl e
         | Inr url \<Rightarrow>
             if truthy url then Inr url
             else (case py_get (dget kvs ''attrs'' (JDict [])) ''data'' (JDict []) of
                     Inl e \<Rightarrow> Inl e
                   | Inr data \<Rightarrow>
                       (case py_get data ''url'' JNull of Inl e \<Rightarrow> Inl e
                        | Inr u \<Rightarrow>
                            if truthy u then Inr u else py_get data ''name'' (JStr []))))
      else if dget kvs ''type'' JNull = JStr ''codeBlock'' then
        (case adf_to_text_lim d (dget kvs ''content'' (JList [])) of Inl e \<Rightarrow> Inl e
         | Inr r \<Rightarrow> fmt_lim d (''```'' @ [nl]) (if truthy r then r else JStr []) ([nl] @ ''```''))
      else if truthy (dget kvs ''content'' JNull) then adf_to_text_lim d (dget kvs ''content'' JNull)
      else Inr JNull)"
| "adf_to_text_lim (Suc d) (JBool b) = Inr JNull"
| "adf_to_text_lim (Suc d) (JInt n) = Inr JNull"
| "process_content_list_lim 0 items = Inl RecursionError"
| "process_content_list_lim (Suc d) items =
     (if items = [] then Inr JNull else process_items_lim d items [] [])"
| "process_items_lim d [] result_parts code_buffer =
     (case flush_code_buffer_lim d result_parts code_buffer of
        Inl e \<Rightarrow> Inl e
      | Inr (parts, buf) \<Rightarrow> if parts \<noteq> [] then py_join_nl parts else Inr JNull)"
| "process_items_lim d (item # items) result_parts code_buffer =
     (case code_marked_lim d item of
        Inl e \<Rightarrow> Inl e
      | Inr True \<Rightarrow>
          (case get_text_without_code_mark_lim d item of Inl e \<Rightarrow> Inl e
           | Inr text \<Rightarrow>
               (case py_split_nl text of Inl e \<Rightarrow> Inl e
                | Inr lines \<Rightarrow> process_items_lim d items result_parts (code_buffer @ lines)))
      | Inr False \<Rightarrow>
          (case flush_code_buffer_lim d result_parts code_buffer of
             Inl e \<Rightarrow> Inl e
           | Inr (parts, buf) \<Rightarrow>
               (case adf_to_text_lim d item of Inl e \<Rightarrow> Inl e
                | Inr text \<Rightarrow>
                    process_items_lim d items
                      (if truthy text then parts @ [text] else parts) buf)))"
  by pat_completeness auto
termination
  by (relation "measures [
        (\<lambda>x. case x of Inl (d, v) \<Rightarrow> d | Inr (Inl (d, items)) \<Rightarrow> d
                | Inr (Inr (d, items, parts, buf)) \<Rightarrow> d),
        (\<lambda>x. case x of Inl (d, v) \<Rightarrow> 0 | Inr (Inl (d, items)) \<Rightarrow> 0
                | Inr (Inr (d, items, parts, buf)) \<Rightarrow> 1),
        (\<lambda>x. case x of Inl (d, v) \<Rightarrow> 0 | Inr (Inl (d, items)) \<Rightarrow> 0
                | Inr (Inr (d, items, parts, buf)) \<Rightarrow> length items)]")
     auto

text \<open>A chain of \<open>n\<close> nodes of an unknown type around the string \<open>x\<close>.\<close>

fun deep :: "nat \<Rightarrow> json" where
  "deep 0 = plain ''x''"
| "deep (Suc n) = JDict [(''type'', JStr ''paragraph''), (''content'', JList [deep n])]"

text \<open>
  \<open>agrees ok x y\<close>: the result \<open>x\<close> of a function with a bounded stack is
  \<^verbatim>\<open>RecursionError\<close> or the result \<open>y\<close> of the function without the bound, and it is
  \<open>y\<close> when \<open>ok\<close> holds.
\<close>

definition agrees :: "bool \<Rightarrow> exn + 'a \<Rightarrow> exn + 'a \<Rightarrow> bool" where
  "agrees ok x y = ((x = Inl RecursionError \<or> x = y) \<and> (ok \<longrightarrow> x = y))"

section \<open>Properties\<close>

lemmas node_defs = mark_def text_node_def code_def plain_def

lemmas eval_defs = dget_def code_marked_def has_code_mark_def get_text_without_code_mark_def
  apply_marks_def apply_mark_def fmt_def flush_code_buffer_def py_join_nl_def fence_def

subsection \<open>Splitting and joining lines\<close>

lemma split_nl_not_Nil [simp]: "split_nl s \<noteq> []"
  by (induction s) (auto split: list.splits)

lemma split_nl_single: "nl \<notin> set s \<Longrightarrow> split_nl s = [s]"
  by (induction s) auto

lemma length_split_nl: "length (split_nl s) = Suc (count_list s nl)"
  by (induction s) (auto split: list.splits)

lemma join_with_Cons: "ys \<noteq> [] \<Longrightarrow> join_with sep (x # ys) = x @ sep @ join_with sep ys"
  by (cases ys) auto

lemma join_split_nl: "join_with [nl] (split_nl s) = s"
proof (induction s)
  case Nil
  show ?case by simp
next
  case (Cons c cs)
  obtain l ls where sp: "split_nl cs = l # ls"
    by (cases "split_nl cs") auto
  show ?case
  proof (cases "c = nl")
    case True
    with Cons sp show ?thesis by (simp add: join_with_Cons)
  next
    case False
    with Cons sp show ?thesis by (cases ls) auto
  qed
qed

lemma split_nl_multi: "nl \<in> set s \<Longrightarrow> 2 \<le> length (split_nl s)"
  by (induction s) (auto split: list.splits)

subsection \<open>A run of code-marked text nodes\<close>

lemma code_marked_code [simp]: "code_marked (code t) = Inr True"
  by (simp add: node_defs eval_defs)

lemma get_text_code [simp]: "get_text_without_code_mark (code t) = Inr (JStr t)"
  by (simp add: node_defs eval_defs)

lemma process_items_code_run:
  "process_items (map code ts @ rest) parts buf
     = process_items rest parts (buf @ concat (map split_nl ts))"
  by (induction ts arbitrary: buf) simp_all

lemma flush_many:
  "2 \<le> length buf \<Longrightarrow>
     flush_code_buffer parts buf = (parts @ [JStr (fence (join_with [nl] buf))], [])"
  by (auto simp: flush_code_buffer_def)

lemma concat_single_lines: "\<forall>t\<in>set ts. nl \<notin> set t \<Longrightarrow> concat (map split_nl ts) = ts"
  by (induction ts) (auto simp: split_nl_single)

text \<open>
  C1. The sequence \<open>[code a, code b, plain " x ", code c]\<close> converts to the fenced block of
  \<open>a\<close> and \<open>b\<close>, then \<open>" x "\<close>, then the inline span of \<open>c\<close>, separated by newlines; and
  every sequence of two or more code-marked text nodes with single-line texts converts to
  one fenced block whose body is the texts joined by newlines, in their order.
\<close>

theorem code_run_fenced:
  "adf_to_text (JList [code ''a'', code ''b'', plain '' x '', code ''c''])
     = Inr (JStr ''```\<newline>a\<newline>b\<newline>```\<newline> x \<newline>`c`'')
   \<and> (\<forall>ts. 2 \<le> length ts \<and> (\<forall>t\<in>set ts. nl \<notin> set t) \<longrightarrow>
          adf_to_text (JList (map code ts)) = Inr (JStr (fence (join_with [nl] ts))))"
proof (intro conjI allI impI)
  show "adf_to_text (JList [code ''a'', code ''b'', plain '' x '', code ''c''])
     = Inr (JStr ''```\<newline>a\<newline>b\<newline>```\<newline> x \<newline>`c`'')"
    by (simp add: node_defs eval_defs)
next
  fix ts :: "string list"
  assume h: "2 \<le> length ts \<and> (\<forall>t\<in>set ts. nl \<notin> set t)"
  then have ne: "map code ts \<noteq> []" by auto
  have run: "process_items (map code ts) [] [] = process_items [] [] (concat (map split_nl ts))"
    using process_items_code_run [of ts "[]" "[]" "[]"] by simp
  from h have lines: "concat (map split_nl ts) = ts"
    by (simp add: concat_single_lines)
  from h ne run lines show "adf_to_text (JList (map code ts)) = Inr (JStr (fence (join_with [nl] ts)))"
    by (simp add: flush_many py_join_nl_def)
qed

theorem code_run_fenced_witness:
  "2 \<le> length [''x = 1'', ''y = 2'', ''z = 3'']
   \<and> nl \<notin> set ''x = 1'' \<and> nl \<notin> set ''y = 2'' \<and> nl \<notin> set ''z = 3''
   \<and> adf_to_text (JList (map code [''x = 1'', ''y = 2'', ''z = 3'']))
       = Inr (JStr ''```\<newline>x = 1\<newline>y = 2\<newline>z = 3\<newline>```'')"
proof -
  have "2 \<le> length [''x = 1'', ''y = 2'', ''z = 3'']
        \<and> (\<forall>t\<in>set [''x = 1'', ''y = 2'', ''z = 3'']. nl \<notin> set t) \<longrightarrow>
        adf_to_text (JList (map code [''x = 1'', ''y = 2'', ''z = 3'']))
          = Inr (JStr (fence (join_with [nl] [''x = 1'', ''y = 2'', ''z = 3''])))"
    using code_run_fenced by blast
  then show ?thesis by (simp add: fence_def)
qed

text \<open>
  C7. The converter is the identity on its two base cases: an absent input gives absent, and
  a string is returned unchanged.
\<close>

theorem base_cases_identity:
  "adf_to_text JNull = Inr JNull \<and> (\<forall>s. adf_to_text (JStr s) = Inr (JStr s))"
  by simp

text \<open>
  C10. A code-marked text node with empty text still enters the code buffer: it adds one
  empty line to the buffer, and nothing is flushed or dropped. So the sequence of that one
  node converts to the empty inline span of two backticks, and next to another code node its
  empty line is a line of the fenced block; a plain text node with empty text adds nothing,
  and the sequence of that one node converts to absent.
\<close>

theorem empty_code_run_kept:
  "adf_to_text (JList [code []]) = Inr (JStr ''``'')
   \<and> adf_to_text (JList [JDict [(''type'', JStr ''text''), (''text'', JStr []),
          (''marks'', JList [JDict [(''type'', JStr ''code'')]])]]) = Inr (JStr [bt, bt])
   \<and> adf_to_text (JList [plain []]) = Inr JNull
   \<and> (\<forall>items result_parts code_buffer.
          process_items (code [] # items) result_parts code_buffer
            = process_items items result_parts (code_buffer @ [[]]))
   \<and> adf_to_text (JList [code [], code ''a''])
         = Inr (JStr ''```\<newline>\<newline>a\<newline>```'')
   \<and> adf_to_text (JList [code ''a'', code []])
         = Inr (JStr ''```\<newline>a\<newline>\<newline>```'')
   \<and> adf_to_text (JList [plain ''x'', code [], plain ''y''])
         = Inr (JStr ''x\<newline>``\<newline>y'')
   \<and> adf_to_text (JList [plain ''x'', plain [], plain ''y''])
         = Inr (JStr ''x\<newline>y'')"
proof (intro conjI allI)
  fix items result_parts code_buffer
  show "process_items (code [] # items) result_parts code_buffer
            = process_items items result_parts (code_buffer @ [[]])"
    by simp
qed (simp_all add: node_defs eval_defs)

subsection \<open>Text nodes and their marks\<close>

lemma text_node_direct: "adf_to_text (text_node T ms) = apply_marks_loop (JStr T) ms"
  by (cases ms) (simp_all add: text_node_def dget_def apply_marks_def)






subsection \<open>Nodes of other types\<close>

text \<open>
  C5. A node whose type is none of text, hardBreak, mention, emoji, date, status, inlineCard
  and codeBlock converts to what its \<open>content\<close> converts to when the content is present
  and not empty, and to absent when the content is missing or empty; the empty mapping
  converts to absent.
\<close>

theorem unknown_type_passthrough:
  "(\<forall>d. dget d ''type'' JNull \<notin> set recognized_types \<longrightarrow>
      adf_to_text (JDict d) =
        (if truthy (dget d ''content'' JNull) then adf_to_text (dget d ''content'' JNull)
         else Inr JNull))
   \<and> (\<forall>d c cs. dget d ''type'' JNull \<notin> set recognized_types
         \<and> map_of d ''content'' = Some (JList (c # cs)) \<longrightarrow>
         adf_to_text (JDict d) = adf_to_text (JList (c # cs)))
   \<and> (\<forall>d. dget d ''type'' JNull \<notin> set recognized_types
         \<and> (map_of d ''content'' = None \<or> map_of d ''content'' = Some (JList [])) \<longrightarrow>
         adf_to_text (JDict d) = Inr JNull)
   \<and> adf_to_text (JDict []) = Inr JNull"
proof -
  have gen: "adf_to_text (JDict d) =
        (if truthy (dget d ''content'' JNull) then adf_to_text (dget d ''content'' JNull)
         else Inr JNull)"
    if "dget d ''type'' JNull \<notin> set recognized_types" for d
    using that by (simp add: recognized_types_def)
  have some: "adf_to_text (JDict d) = adf_to_text (JList (c # cs))"
    if "dget d ''type'' JNull \<notin> set recognized_types"
      and "map_of d ''content'' = Some (JList (c # cs))" for d c cs
  proof -
    from that(2) have "dget d ''content'' JNull = JList (c # cs)"
      by (simp add: dget_def)
    then show ?thesis
      unfolding gen [OF that(1)] by (simp only: truthy.simps list.simps simp_thms if_True)
  qed
  have none: "adf_to_text (JDict d) = Inr JNull"
    if "dget d ''type'' JNull \<notin> set recognized_types"
      and "map_of d ''content'' = None \<or> map_of d ''content'' = Some (JList [])" for d
  proof -
    from that(2) have "\<not> truthy (dget d ''content'' JNull)"
      by (auto simp: dget_def)
    then show ?thesis
      unfolding gen [OF that(1)] by (simp only: if_False)
  qed
  have empty: "adf_to_text (JDict []) = Inr JNull"
    by (simp add: dget_def)
  from gen some none empty show ?thesis by blast
qed

theorem unknown_type_passthrough_witness:
  "dget [(''type'', JStr ''paragraph''), (''content'', JList [plain ''nested text''])] ''type'' JNull
       \<notin> set recognized_types
   \<and> map_of [(''type'', JStr ''paragraph''), (''content'', JList [plain ''nested text''])] ''content''
       = Some (JList [plain ''nested text''])
   \<and> adf_to_text (JDict [(''type'', JStr ''paragraph''), (''content'', JList [plain ''nested text''])])
       = adf_to_text (JList [plain ''nested text''])
   \<and> adf_to_text (JList [plain ''nested text'']) = Inr (JStr ''nested text'')"
proof -
  have t: "dget [(''type'', JStr ''paragraph''), (''content'', JList [plain ''nested text''])]
       ''type'' JNull \<notin> set recognized_types"
    by (simp add: dget_def recognized_types_def)
  have c: "map_of [(''type'', JStr ''paragraph''), (''content'', JList [plain ''nested text''])]
       ''content'' = Some (JList [plain ''nested text''])"
    by simp
  have e: "adf_to_text (JList [plain ''nested text'']) = Inr (JStr ''nested text'')"
    by (simp add: node_defs eval_defs)
  from unknown_type_passthrough t c
  have "adf_to_text (JDict [(''type'', JStr ''paragraph''), (''content'', JList [plain ''nested text''])])
       = adf_to_text (JList [plain ''nested text''])"
    by blast
  with t c e show ?thesis by blast
qed

subsection \<open>Siblings that convert to nothing\<close>

lemma process_items_empty_like_absent:
  "code_marked x = Inr False \<Longrightarrow> adf_to_text x = Inr (JStr []) \<Longrightarrow>
     process_items (pre @ x # post) parts buf = process_items (pre @ JNull # post) parts buf"
proof (induction pre arbitrary: parts buf)
  case Nil
  then show ?case by (simp add: code_marked_def split: prod.splits)
next
  case (Cons p pre)
  then show ?case by (simp split: sum.splits bool.splits prod.splits)
qed

lemma process_items_all_dropped:
  "\<forall>x\<in>set items. code_marked x = Inr False
       \<and> (adf_to_text x = Inr (JStr []) \<or> adf_to_text x = Inr JNull) \<Longrightarrow>
     process_items items [] [] = Inr JNull"
  by (induction items) (auto simp: flush_code_buffer_def)

lemma plain_empty: "code_marked (plain []) = Inr False \<and> adf_to_text (plain []) = Inr (JStr [])"
  by (simp add: node_defs eval_defs)

text \<open>
  C9. In the sibling merger a sibling without a code mark that converts to the empty string
  is dropped as one that converts to absent is: it adds no part to the output. A sequence
  whose elements all convert to the empty string or to absent, such as text nodes with empty
  text and no code mark, converts to absent and not to the empty string.
\<close>

theorem empty_result_dropped:
  "(\<forall>pre x post. code_marked x = Inr False \<and> adf_to_text x = Inr (JStr []) \<longrightarrow>
       adf_to_text (JList (pre @ x # post)) = adf_to_text (JList (pre @ JNull # post)))
   \<and> (\<forall>items. (\<forall>x\<in>set items. code_marked x = Inr False
                    \<and> (adf_to_text x = Inr (JStr []) \<or> adf_to_text x = Inr JNull)) \<longrightarrow>
         adf_to_text (JList items) = Inr JNull)
   \<and> (\<forall>n. adf_to_text (JList (replicate n (plain []))) = Inr JNull)"
proof (intro conjI allI impI)
  fix pre x post
  assume "code_marked x = Inr False \<and> adf_to_text x = Inr (JStr [])"
  then show "adf_to_text (JList (pre @ x # post)) = adf_to_text (JList (pre @ JNull # post))"
    by (simp add: process_items_empty_like_absent)
next
  fix items
  assume "\<forall>x\<in>set items. code_marked x = Inr False
              \<and> (adf_to_text x = Inr (JStr []) \<or> adf_to_text x = Inr JNull)"
  then show "adf_to_text (JList items) = Inr JNull"
    by (simp add: process_items_all_dropped)
next
  fix n
  have "\<forall>x\<in>set (replicate n (plain [])). code_marked x = Inr False
              \<and> (adf_to_text x = Inr (JStr []) \<or> adf_to_text x = Inr JNull)"
    by (simp add: plain_empty)
  then show "adf_to_text (JList (replicate n (plain []))) = Inr JNull"
    by (simp only: adf_to_text.simps process_content_list.simps process_items_all_dropped if_cancel)
qed

theorem empty_result_dropped_witness:
  "code_marked (plain []) = Inr False \<and> adf_to_text (plain []) = Inr (JStr [])
   \<and> adf_to_text (JList [code ''a'', plain [], code ''b''])
       = adf_to_text (JList [code ''a'', JNull, code ''b''])
   \<and> adf_to_text (JList [code ''a'', plain [], code ''b'']) = Inr (JStr ''`a`\<newline>`b`'')
   \<and> adf_to_text (JList [plain [], JNull, plain []]) = Inr JNull"
proof -
  have "adf_to_text (JList ([code ''a''] @ plain [] # [code ''b'']))
       = adf_to_text (JList ([code ''a''] @ JNull # [code ''b'']))"
    using empty_result_dropped plain_empty by blast
  moreover have "adf_to_text (JList [code ''a'', plain [], code ''b'']) = Inr (JStr ''`a`\<newline>`b`'')"
    by (simp add: node_defs eval_defs)
  moreover have "adf_to_text (JList [plain [], JNull, plain []]) = Inr JNull"
    by (simp add: node_defs eval_defs)
  ultimately show ?thesis using plain_empty by simp
qed

subsection \<open>A text node with a code mark\<close>

lemma flush_single:
  "flush_code_buffer parts (split_nl T) =
     (parts @ [JStr (if nl \<in> set T then fence T else [bt] @ T @ [bt])], [])"
proof (cases "nl \<in> set T")
  case True
  then have "2 \<le> length (split_nl T)" by (rule split_nl_multi)
  with True show ?thesis by (simp add: flush_many join_split_nl)
next
  case False
  then show ?thesis by (simp add: split_nl_single flush_code_buffer_def)
qed

lemma text_node_in_sequence:
  assumes "any_code ms = Inr True" and "non_code_marks ms = Inr ncm"
    and "apply_marks_loop (JStr T) ncm = Inr (JStr T')"
  shows "adf_to_text (JList [text_node T ms])
           = Inr (JStr (if nl \<in> set T' then fence T' else [bt] @ T' @ [bt]))"
proof -
  have cm: "code_marked (text_node T ms) = Inr True"
    using assms(1) by (simp add: code_marked_def has_code_mark_def text_node_def dget_def)
  have gt: "get_text_without_code_mark (text_node T ms) = Inr (JStr T')"
    using assms(2,3)
    by (cases ncm) (simp_all add: get_text_without_code_mark_def text_node_def dget_def apply_marks_def)
  show ?thesis
    by (simp add: cm gt flush_single py_join_nl_def del: split_nl.simps)
qed

text \<open>
  C2, as the code has it. A text node whose only mark is a code mark, passed to the converter
  by itself, converts to the inline span of its text between backticks, whether the text has
  a newline or not. As the only element of a sequence it converts to the inline span when the
  text has no newline and to a fenced block of exactly the lines of the text otherwise. In a
  sequence the code mark is taken out and the other marks are applied first, so the code
  wrapping is outermost; passed by itself the code mark wraps in its place in the mark list.
\<close>

theorem code_text_node:
  "(\<forall>T. adf_to_text (code T) = Inr (JStr ([bt] @ T @ [bt])))
   \<and> (\<forall>T. adf_to_text (JList [code T])
            = Inr (JStr (if nl \<in> set T then fence (join_with [nl] (split_nl T))
                         else [bt] @ T @ [bt]))
          \<and> join_with [nl] (split_nl T) = T)
   \<and> (\<forall>T ms ncm T'. any_code ms = Inr True \<and> non_code_marks ms = Inr ncm
          \<and> apply_marks_loop (JStr T) ncm = Inr (JStr T') \<longrightarrow>
          adf_to_text (JList [text_node T ms])
            = Inr (JStr (if nl \<in> set T' then fence T' else [bt] @ T' @ [bt])))
   \<and> adf_to_text (text_node ''X'' [mark ''code'', mark ''strong'']) = Inr (JStr ''**`X`**'')"
proof (intro conjI allI impI)
  fix T
  show "adf_to_text (code T) = Inr (JStr ([bt] @ T @ [bt]))"
    by (simp add: code_def text_node_direct apply_mark_def mark_def fmt_def dget_def)
  have "any_code [mark ''code''] = Inr True" "non_code_marks [mark ''code''] = Inr []"
    "apply_marks_loop (JStr T) [] = Inr (JStr T)"
    by (simp_all add: mark_def dget_def)
  then have "adf_to_text (JList [text_node T [mark ''code'']])
           = Inr (JStr (if nl \<in> set T then fence T else [bt] @ T @ [bt]))"
    by (rule text_node_in_sequence)
  then show "adf_to_text (JList [code T])
            = Inr (JStr (if nl \<in> set T then fence (join_with [nl] (split_nl T))
                         else [bt] @ T @ [bt]))"
    by (simp only: code_def join_split_nl)
  show "join_with [nl] (split_nl T) = T"
    by (rule join_split_nl)
next
  fix T ms ncm T'
  assume "any_code ms = Inr True \<and> non_code_marks ms = Inr ncm
          \<and> apply_marks_loop (JStr T) ncm = Inr (JStr T')"
  then show "adf_to_text (JList [text_node T ms])
            = Inr (JStr (if nl \<in> set T' then fence T' else [bt] @ T' @ [bt]))"
    by (simp add: text_node_in_sequence del: adf_to_text.simps)
next
  show "adf_to_text (text_node ''X'' [mark ''code'', mark ''strong'']) = Inr (JStr ''**`X`**'')"
    by (simp add: node_defs eval_defs)
qed

theorem code_text_node_witness:
  "any_code [mark ''code'', mark ''strong''] = Inr True
   \<and> non_code_marks [mark ''code'', mark ''strong''] = Inr [mark ''strong'']
   \<and> apply_marks_loop (JStr ''X'') [mark ''strong''] = Inr (JStr ''**X**'')
   \<and> adf_to_text (JList [text_node ''X'' [mark ''code'', mark ''strong'']]) = Inr (JStr ''`**X**`'')"
proof -
  have h: "any_code [mark ''code'', mark ''strong''] = Inr True
     \<and> non_code_marks [mark ''code'', mark ''strong''] = Inr [mark ''strong'']
     \<and> apply_marks_loop (JStr ''X'') [mark ''strong''] = Inr (JStr ''**X**'')"
    by (simp add: mark_def dget_def apply_mark_def fmt_def)
  with code_text_node
  have "adf_to_text (JList [text_node ''X'' [mark ''code'', mark ''strong'']])
            = Inr (JStr (if nl \<in> set ''**X**'' then fence ''**X**'' else [bt] @ ''**X**'' @ [bt]))"
    by blast
  with h show ?thesis by simp
qed

text \<open>
  C2, as stated, fails: the text node with the code mark and the two-line text \<open>a\<close>,
  \<open>b\<close>, passed by itself, converts to the inline span and not to a fenced block.
\<close>

theorem code_text_node_multiline_counterexample:
  "adf_to_text (code ''a\<newline>b'') = Inr (JStr ''`a\<newline>b`'')
   \<and> adf_to_text (code ''a\<newline>b'') \<noteq> Inr (JStr (fence ''a\<newline>b''))
   \<and> nl \<in> set ''a\<newline>b''"
  by (simp add: node_defs eval_defs)

subsection \<open>The date node\<close>

lemma date_node_examples:
  "adf_to_text (date_node (JInt 1582152559000)) = Inr (JStr ''2020-02-19'')
   \<and> adf_to_text (date_node (JStr ''1582152559000'')) = Inr (JStr ''2020-02-19'')
   \<and> adf_to_text (date_node (JStr ''not-a-number'')) = Inr (JStr ''not-a-number'')
   \<and> adf_to_text (JDict [(''type'', JStr ''date''), (''attrs'', JDict [])]) = Inr (JStr [])
   \<and> adf_to_text (JDict [(''type'', JStr ''date'')]) = Inr (JStr [])
   \<and> adf_to_text (date_node (JStr ''0'')) = Inr (JStr ''1970-01-01'')
   \<and> adf_to_text (date_node (JInt 253402300800000)) = Inr (JStr ''253402300800000'')"
  by code_simp

text \<open>
  C3, at the inputs where the code leaves it. The integer timestamp 0 is an instant, yet the
  test \<^verbatim>\<open>if timestamp:\<close> takes it for a missing one and the node converts to the empty
  string, where the string \<open>"0"\<close> converts to \<open>1970-01-01\<close>. A timestamp far outside the
  range of dates, such as \<open>10 ^ 400\<close>, raises \<^verbatim>\<open>OverflowError\<close>, which the handler
  \<^verbatim>\<open>except (ValueError, OSError, TypeError)\<close> does not catch.
\<close>

theorem date_zero_and_overflow:
  "adf_to_text (date_node (JInt 0)) = Inr (JStr [])
   \<and> adf_to_text (date_node (JStr ''0'')) = Inr (JStr ''1970-01-01'')
   \<and> adf_to_text (date_node (JInt (10 ^ 400))) = Inl OverflowError
   \<and> adf_to_text (date_node (JInt 10000000000000000000000)) = Inl OverflowError"
  by code_simp


subsection \<open>The store after a call\<close>

lemma frame_ret: "frame n (ret x)"
  by (simp add: frame_def ret_def)

lemma frame_throw: "frame n (throw e)"
  by (simp add: frame_def throw_def)

lemma frame_out_of_fuel: "frame n out_of_fuel"
  by (simp add: frame_def out_of_fuel_def)

lemma frame_lift: "frame n (lift g)"
  by (simp add: frame_def lift_def)

lemma frame_bind:
  assumes "frame n m" and "\<And>x. frame n (k x)"
  shows "frame n (bindH m k)"
proof (unfold frame_def, intro allI impI)
  fix h :: heap
  assume n: "n \<le> length h"
  obtain r h' where mh: "m h = (r, h')" by (cases "m h")
  with assms(1) n have h': "n \<le> length h'" "take n h' = take n h"
    by (auto simp: frame_def)
  show "n \<le> length (snd (bindH m k h)) \<and> take n (snd (bindH m k h)) = take n h"
  proof (cases r)
    case (Inl e)
    with mh h' show ?thesis by (simp add: bindH_def)
  next
    case (Inr x)
    from assms(2) [of x] h' have "n \<le> length (snd (k x h')) \<and> take n (snd (k x h')) = take n h"
      by (auto simp: frame_def)
    with mh Inr show ?thesis by (simp add: bindH_def)
  qed
qed

lemma frame_alloc: "frame n (alloc ob)"
  by (simp add: frame_def alloc_def)

lemma frame_alloc_bind:
  assumes "\<And>v. fresh n v \<Longrightarrow> frame n (k v)"
  shows "frame n (bindH (alloc ob) k)"
proof (unfold frame_def, intro allI impI)
  fix h :: heap
  assume n: "n \<le> length h"
  then have "fresh n (VRef (length h))" by (simp add: fresh_def)
  from assms [OF this] n
  have "n \<le> length (snd (k (VRef (length h)) (h @ [ob])))
        \<and> take n (snd (k (VRef (length h)) (h @ [ob]))) = take n (h @ [ob])"
    by (simp add: frame_def)
  with n show "n \<le> length (snd (bindH (alloc ob) k h))
        \<and> take n (snd (bindH (alloc ob) k h)) = take n h"
    by (simp add: bindH_def alloc_def)
qed

lemma take_update_above: "n \<le> a \<Longrightarrow> take n (h[a := ob]) = take n h"
  by simp

lemma frame_list_append: "fresh n xs \<Longrightarrow> frame n (list_append xs v)"
  by (auto simp: frame_def list_append_def fresh_def split: val.splits option.splits obj.splits)

lemma frame_list_extend: "fresh n xs \<Longrightarrow> frame n (list_extend xs ys)"
  by (auto simp: frame_def list_extend_def fresh_def split: val.splits option.splits obj.splits)

lemma frame_list_clear: "fresh n xs \<Longrightarrow> frame n (list_clear xs)"
  by (auto simp: frame_def list_clear_def fresh_def split: val.splits option.splits obj.splits)

lemma frame_test: "frame n (test v)"
  by (simp add: test_def frame_lift)

lemma frame_get_h: "frame n (get_h x k dflt)"
  by (simp add: get_h_def frame_lift)

lemma frame_get_new: "frame n (get_new x k ob)"
  by (simp add: get_new_def frame_bind frame_alloc frame_get_h)

lemma frame_next_h: "frame n (next_h x i)"
  by (simp add: next_h_def frame_lift)

lemma frame_str_h: "frame n (str_h f v)"
  by (simp add: str_h_def frame_lift)

lemma frame_fmt_h: "frame n (fmt_h f pre v post)"
  by (simp add: fmt_h_def frame_bind frame_str_h frame_ret)

lemma frame_strings_h: "frame n (strings_h xs)"
  by (simp add: strings_h_def frame_lift)

lemma frame_split_h: "frame n (split_h v)"
  by (cases v) (simp_all add: split_h_def frame_alloc frame_throw)

lemmas frame_basic = frame_ret frame_throw frame_out_of_fuel frame_lift frame_alloc frame_test
  frame_get_h frame_get_new frame_next_h frame_str_h frame_fmt_h frame_strings_h frame_split_h
  frame_list_append frame_list_extend frame_list_clear

lemma frame_if: "(c \<Longrightarrow> frame n a) \<Longrightarrow> (\<not> c \<Longrightarrow> frame n b) \<Longrightarrow> frame n (if c then a else b)"
  by simp

lemma frame_apply_mark_h: "frame n (apply_mark_h f text m)"
  unfolding apply_mark_h_def
  by (intro frame_bind frame_if frame_basic)

lemma frame_apply_marks_loop_h: "frame n (apply_marks_loop_h f t marks i)"
proof (induction f arbitrary: t i)
  case 0
  show ?case by (simp add: frame_out_of_fuel)
next
  case (Suc f)
  show ?case
    by (auto intro!: frame_bind frame_basic frame_apply_mark_h Suc split: option.splits)
qed

lemma frame_apply_marks_h: "frame n (apply_marks_h f text marks)"
  unfolding apply_marks_h_def
  by (intro frame_bind frame_if frame_basic frame_apply_marks_loop_h)

lemma frame_any_code_h: "frame n (any_code_h f marks i)"
proof (induction f arbitrary: i)
  case 0
  show ?case by (simp add: frame_out_of_fuel)
next
  case (Suc f)
  show ?case
    by (auto intro!: frame_bind frame_basic Suc split: option.splits)
qed

lemma frame_has_code_mark_h: "frame n (has_code_mark_h f node)"
  unfolding has_code_mark_h_def
  by (intro frame_bind frame_if frame_basic frame_any_code_h)

lemma frame_non_code_marks_h: "fresh n res \<Longrightarrow> frame n (non_code_marks_h f marks i res)"
proof (induction f arbitrary: i)
  case 0
  show ?case by (simp add: frame_out_of_fuel)
next
  case (Suc f)
  then show ?case
    by (auto intro!: frame_bind frame_basic split: option.splits)
qed

lemma frame_get_text_without_code_mark_h: "frame n (get_text_without_code_mark_h f node)"
  unfolding get_text_without_code_mark_h_def
  by (intro frame_bind frame_alloc_bind frame_if frame_basic frame_non_code_marks_h
      frame_apply_marks_h)

lemma frame_flush_code_buffer_h:
  "fresh n result_parts \<Longrightarrow> fresh n code_buffer \<Longrightarrow>
     frame n (flush_code_buffer_h result_parts code_buffer)"
  unfolding flush_code_buffer_h_def
  by (intro frame_bind frame_if frame_basic)

lemma frame_date_try_h: "frame n (date_try_h f timestamp)"
  unfolding date_try_h_def
  by (auto intro!: frame_bind frame_basic split: sum.splits)

lemma frame_inline_node_h: "frame n (inline_node_h f node ty)"
  unfolding inline_node_h_def
  by (intro frame_bind frame_if frame_basic frame_apply_marks_h frame_date_try_h)

lemma frame_converter:
  "(\<forall>v. frame n (adf_to_text_h f v))
   \<and> (\<forall>v. frame n (process_content_list_h f v))
   \<and> (\<forall>items i rp cb. fresh n rp \<longrightarrow> fresh n cb \<longrightarrow> frame n (process_items_h f items i rp cb))"
proof (induction f)
  case 0
  show ?case by (simp add: frame_out_of_fuel)
next
  case (Suc f)
  then have ih1: "\<And>v. frame n (adf_to_text_h f v)"
    and ih2: "\<And>v. frame n (process_content_list_h f v)"
    and ih3: "\<And>items i rp cb. fresh n rp \<Longrightarrow> fresh n cb \<Longrightarrow> frame n (process_items_h f items i rp cb)"
    by blast+
  have a: "frame n (adf_to_text_h (Suc f) v)" for v
    by (auto intro!: frame_bind frame_basic frame_inline_node_h ih1 ih2
        split: val.splits option.splits obj.splits)
  have b: "frame n (process_content_list_h (Suc f) v)" for v
    by (auto intro!: frame_bind frame_alloc_bind frame_basic ih3)
  have c: "frame n (process_items_h (Suc f) items i rp cb)" if "fresh n rp" "fresh n cb"
    for items i rp cb
    using that
    by (auto intro!: frame_bind frame_basic frame_flush_code_buffer_h frame_has_code_mark_h
        frame_get_text_without_code_mark_h ih1 ih3 split: option.splits obj.splits)
  from a b c show ?case by blast
qed


subsection \<open>The objects that a call makes\<close>

lemma keeps_ret: "P x \<Longrightarrow> keeps n P (ret x)"
  by (simp add: keeps_def ret_def)

lemma keeps_throw: "keeps n P (throw e)"
  by (simp add: keeps_def throw_def)

lemma keeps_out_of_fuel: "keeps n P out_of_fuel"
  by (simp add: keeps_def out_of_fuel_def)

lemma keeps_lift: "(\<And>h x. closed_store n h \<Longrightarrow> g h = Inr x \<Longrightarrow> P x) \<Longrightarrow> keeps n P (lift g)"
  by (simp add: keeps_def lift_def)

lemma keeps_bind:
  assumes "keeps n Q m" and "\<And>x. Q x \<Longrightarrow> keeps n P (k x)"
  shows "keeps n P (bindH m k)"
proof (unfold keeps_def, intro allI impI)
  fix h :: heap
  assume c: "closed_store n h"
  obtain r h' where mh: "m h = (r, h')" by (cases "m h")
  with assms(1) c have h': "closed_store n h'" and q: "\<And>x. r = Inr x \<Longrightarrow> Q x"
    by (auto simp: keeps_def)
  show "closed_store n (snd (bindH m k h)) \<and> (\<forall>x. fst (bindH m k h) = Inr x \<longrightarrow> P x)"
  proof (cases r)
    case (Inl e)
    with mh h' show ?thesis by (simp add: bindH_def)
  next
    case (Inr x)
    from assms(2) [OF q [OF Inr]] h'
    have "closed_store n (snd (k x h')) \<and> (\<forall>y. fst (k x h') = Inr y \<longrightarrow> P y)"
      by (simp add: keeps_def)
    with mh Inr show ?thesis by (simp add: bindH_def)
  qed
qed

lemma keeps_if:
  "(c \<Longrightarrow> keeps n P a) \<Longrightarrow> (\<not> c \<Longrightarrow> keeps n P b) \<Longrightarrow> keeps n P (if c then a else b)"
  by simp

lemma closed_store_lookup:
  assumes "closed_store n h" and "lookup h x = Some ob"
  shows "list_all (old n) (obj_vals ob)"
proof -
  from assms(2) obtain a where "x = VRef a" "a < length h" "ob = h ! a"
    by (auto simp: lookup_def split: val.splits if_splits)
  with assms(1) show ?thesis
    by (auto simp: closed_store_def list_all_length)
qed

lemma closed_store_update:
  "closed_store n h \<Longrightarrow> list_all (old n) (obj_vals ob) \<Longrightarrow> closed_store n (h[a := ob])"
  by (auto simp: closed_store_def list_all_iff dest: set_update_subset_insert [THEN subsetD])

lemma keeps_alloc: "list_all (old n) (obj_vals ob) \<Longrightarrow> keeps n (\<lambda>_. True) (alloc ob)"
  by (simp add: keeps_def alloc_def closed_store_def)

lemma keeps_list_append: "old n v \<Longrightarrow> keeps n (\<lambda>_. True) (list_append xs v)"
proof (unfold keeps_def, intro allI impI)
  fix h :: heap
  assume v: "old n v" and c: "closed_store n h"
  show "closed_store n (snd (list_append xs v h)) \<and> (\<forall>x. fst (list_append xs v h) = Inr x \<longrightarrow> True)"
  proof (cases "lookup h xs")
    case None
    with c show ?thesis by (auto simp: list_append_def split: val.splits)
  next
    case (Some ob)
    from closed_store_lookup [OF c Some] v c Some show ?thesis
      by (cases ob) (auto simp: list_append_def obj_vals_def intro!: closed_store_update
          split: val.splits)
  qed
qed

lemma keeps_list_extend: "keeps n (\<lambda>_. True) (list_extend xs ys)"
proof (unfold keeps_def, intro allI impI)
  fix h :: heap
  assume c: "closed_store n h"
  show "closed_store n (snd (list_extend xs ys h)) \<and> (\<forall>x. fst (list_extend xs ys h) = Inr x \<longrightarrow> True)"
  proof (cases "lookup h xs")
    case None
    with c show ?thesis by (auto simp: list_extend_def split: val.splits)
  next
    case (Some ob)
    note xs = this
    show ?thesis
    proof (cases "lookup h ys")
      case None
      with c xs show ?thesis
        by (auto simp: list_extend_def split: val.splits obj.splits)
    next
      case (Some ob')
      from closed_store_lookup [OF c xs] closed_store_lookup [OF c Some] c xs Some show ?thesis
        by (cases ob; cases ob')
           (auto simp: list_extend_def obj_vals_def intro!: closed_store_update split: val.splits)
    qed
  qed
qed

lemma keeps_list_clear: "keeps n (\<lambda>_. True) (list_clear xs)"
  by (auto simp: keeps_def list_clear_def obj_vals_def intro!: closed_store_update
      split: val.splits option.splits obj.splits)

lemma keeps_test: "keeps n (\<lambda>_. True) (test v)"
  by (simp add: test_def keeps_lift)

lemma keeps_get_h: "old n dflt \<Longrightarrow> keeps n (old n) (get_h x k dflt)"
  unfolding get_h_def
proof (rule keeps_lift)
  fix h r
  assume d: "old n dflt" and c: "closed_store n h"
    and g: "(case lookup h x of
               Some (ODict d) \<Rightarrow> Inr (case map_of d k of Some v \<Rightarrow> v | None \<Rightarrow> dflt)
             | _ \<Rightarrow> Inl (Exn AttributeError)) = Inr r"
  from g obtain dd where l: "lookup h x = Some (ODict dd)"
    and r: "r = (case map_of dd k of Some v \<Rightarrow> v | None \<Rightarrow> dflt)"
    by (auto split: option.splits obj.splits)
  from closed_store_lookup [OF c l] have "list_all (old n) (map snd dd)"
    by (simp add: obj_vals_def)
  with r d show "old n r"
    by (auto simp: list_all_iff split: option.splits dest!: map_of_SomeD)
qed

lemma keeps_get_new:
  "list_all (old n) (obj_vals ob) \<Longrightarrow> keeps n (\<lambda>_. True) (get_new x k ob)"
  unfolding get_new_def
proof (rule keeps_bind [where Q = "\<lambda>_. True"])
  show "list_all (old n) (obj_vals ob) \<Longrightarrow> keeps n (\<lambda>_. True) (alloc ob)"
    by (rule keeps_alloc)
  show "keeps n (\<lambda>_. True) (get_h x k dflt)" for dflt
    by (simp add: get_h_def keeps_lift)
qed

lemma keeps_next_h:
  "keeps n (\<lambda>nx. case nx of None \<Rightarrow> True | Some v \<Rightarrow> old n v) (next_h x i)"
  unfolding next_h_def
proof (rule keeps_lift)
  fix h r
  assume c: "closed_store n h"
    and g: "(case x of
               VStr s \<Rightarrow> Inr (if i < length s then Some (VStr [s ! i]) else None)
             | VRef a \<Rightarrow>
                 (case lookup h x of
                    Some (OList l) \<Rightarrow> Inr (if i < length l then Some (l ! i) else None)
                  | Some (ODict d) \<Rightarrow>
                      Inr (if i < length d then Some (VStr (fst (d ! i))) else None)
                  | None \<Rightarrow> Inl (Exn TypeError))
             | _ \<Rightarrow> Inl (Exn TypeError)) = Inr r"
  show "case r of None \<Rightarrow> True | Some v \<Rightarrow> old n v"
  proof (cases "lookup h x")
    case None
    with g show ?thesis by (auto simp: old_def split: val.splits if_splits)
  next
    case (Some ob)
    from closed_store_lookup [OF c Some] g Some show ?thesis
      by (cases ob) (auto simp: old_def obj_vals_def list_all_length split: val.splits if_splits)
  qed
qed

lemma old_VStr [simp]: "old n (VStr s)"
  by (simp add: old_def)

lemma old_VNone [simp]: "old n VNone"
  by (simp add: old_def)

lemma keeps_str_h: "keeps n (\<lambda>_. True) (str_h f v)"
  by (simp add: str_h_def keeps_lift)

lemma keeps_fmt_h: "keeps n (old n) (fmt_h f pre v post)"
  unfolding fmt_h_def
  by (intro keeps_bind [OF keeps_str_h] keeps_ret) simp

lemma keeps_strings_h: "keeps n (\<lambda>_. True) (strings_h xs)"
  by (simp add: strings_h_def keeps_lift)

lemma keeps_split_h: "keeps n (\<lambda>_. True) (split_h v)"
  by (cases v) (simp_all add: split_h_def keeps_throw keeps_alloc obj_vals_def list_all_iff)

lemma empty_objs [simp]:
  "list_all (old n) (obj_vals (OList []))" "list_all (old n) (obj_vals (ODict []))"
  by (simp_all add: obj_vals_def)

lemmas keeps_basic = keeps_throw keeps_out_of_fuel keeps_test keeps_next_h keeps_str_h
  keeps_fmt_h keeps_strings_h keeps_split_h keeps_list_extend keeps_list_clear

lemma keeps_apply_mark_h: "old n t \<Longrightarrow> keeps n (old n) (apply_mark_h f t m)"
  unfolding apply_mark_h_def
  by (intro keeps_bind [OF keeps_get_h] keeps_bind [OF keeps_get_new] keeps_bind [OF keeps_test]
      keeps_bind [OF keeps_str_h] keeps_if keeps_fmt_h keeps_ret)
     simp_all

lemma keeps_apply_marks_loop_h: "old n t \<Longrightarrow> keeps n (old n) (apply_marks_loop_h f t marks i)"
proof (induction f arbitrary: t i)
  case 0
  show ?case by (simp add: keeps_out_of_fuel)
next
  case (Suc f)
  show ?case
    unfolding apply_marks_loop_h.simps
  proof (rule keeps_bind [OF keeps_next_h])
    fix nx
    show "keeps n (old n) (case nx of None \<Rightarrow> ret t
           | Some m \<Rightarrow> bindH (apply_mark_h f t m) (\<lambda>t'. apply_marks_loop_h f t' marks (Suc i)))"
    proof (cases nx)
      case None
      with Suc.prems show ?thesis by (simp add: keeps_ret)
    next
      case (Some m)
      with Suc.prems show ?thesis
        by (auto intro!: keeps_bind [OF keeps_apply_mark_h] Suc.IH)
    qed
  qed
qed

lemma keeps_apply_marks_h: "old n t \<Longrightarrow> keeps n (old n) (apply_marks_h f t marks)"
  unfolding apply_marks_h_def
  by (intro keeps_bind [OF keeps_test] keeps_if keeps_ret keeps_apply_marks_loop_h)

lemma keeps_any_code_h: "keeps n (\<lambda>_. True) (any_code_h f marks i)"
proof (induction f arbitrary: i)
  case 0
  show ?case by (simp add: keeps_out_of_fuel)
next
  case (Suc f)
  show ?case
    unfolding any_code_h.simps
  proof (rule keeps_bind [OF keeps_next_h])
    fix nx
    show "keeps n (\<lambda>_. True) (case nx of None \<Rightarrow> ret False
           | Some m \<Rightarrow> bindH (get_h m ''type'' VNone)
               (\<lambda>t. if t = VStr ''code'' then ret True else any_code_h f marks (Suc i)))"
      by (cases nx) (auto intro!: keeps_bind [OF keeps_get_h] keeps_ret Suc)
  qed
qed

lemma keeps_has_code_mark_h: "keeps n (\<lambda>_. True) (has_code_mark_h f node)"
  unfolding has_code_mark_h_def
  by (intro keeps_bind [OF keeps_get_h] keeps_bind [OF keeps_get_new] keeps_if keeps_ret
        keeps_any_code_h)
     simp_all

lemma keeps_non_code_marks_h: "keeps n (\<lambda>_. True) (non_code_marks_h f marks i res)"
proof (induction f arbitrary: i)
  case 0
  show ?case by (simp add: keeps_out_of_fuel)
next
  case (Suc f)
  show ?case
    unfolding non_code_marks_h.simps
  proof (rule keeps_bind [OF keeps_next_h])
    fix nx
    assume nx: "case nx of None \<Rightarrow> True | Some v \<Rightarrow> old n v"
    show "keeps n (\<lambda>_. True) (case nx of None \<Rightarrow> ret ()
           | Some m \<Rightarrow> bindH (get_h m ''type'' VNone)
               (\<lambda>t. bindH (if t \<noteq> VStr ''code'' then list_append res m else ret ())
                      (\<lambda>_. non_code_marks_h f marks (Suc i) res)))"
    proof (cases nx)
      case None
      then show ?thesis by (simp add: keeps_ret)
    next
      case (Some m)
      with nx have m: "old n m" by simp
      have app: "keeps n (\<lambda>_. True) (if t \<noteq> VStr ''code'' then list_append res m else ret ())"
        for t
        by (simp add: keeps_list_append [OF m] keeps_ret)
      have "keeps n (\<lambda>_. True) (bindH (get_h m ''type'' VNone)
               (\<lambda>t. bindH (if t \<noteq> VStr ''code'' then list_append res m else ret ())
                      (\<lambda>_. non_code_marks_h f marks (Suc i) res)))"
      proof (rule keeps_bind [OF keeps_get_h])
        show "old n VNone" by simp
        show "keeps n (\<lambda>_. True) (bindH (if t \<noteq> VStr ''code'' then list_append res m else ret ())
                      (\<lambda>_. non_code_marks_h f marks (Suc i) res))" for t
          by (rule keeps_bind [OF app]) (rule Suc)
      qed
      with Some show ?thesis by simp
    qed
  qed
qed

lemma keeps_get_text_without_code_mark_h:
  "keeps n (old n) (get_text_without_code_mark_h f node)"
  unfolding get_text_without_code_mark_h_def
  by (intro keeps_bind [OF keeps_get_h] keeps_bind [OF keeps_get_new] keeps_bind [OF keeps_alloc]
        keeps_bind [OF keeps_non_code_marks_h] keeps_bind [OF keeps_test] keeps_if keeps_ret
        keeps_apply_marks_h)
     simp_all

lemma keeps_flush_code_buffer_h:
  "keeps n (\<lambda>_. True) (flush_code_buffer_h result_parts code_buffer)"
  unfolding flush_code_buffer_h_def
  by (intro keeps_bind [OF keeps_test] keeps_bind [OF keeps_strings_h]
        keeps_bind [OF keeps_list_append] keeps_if keeps_ret keeps_list_clear)
     simp_all

lemma keeps_date_try_h: "keeps n (old n) (date_try_h f timestamp)"
  unfolding date_try_h_def
  by (auto intro!: keeps_bind [OF keeps_str_h] keeps_ret keeps_throw split: sum.splits)

lemma keeps_inline_node_h: "keeps n (old n) (inline_node_h f node ty)"
  unfolding inline_node_h_def
  by (intro keeps_bind [OF keeps_get_h] keeps_bind [OF keeps_get_new] keeps_bind [OF keeps_test]
        keeps_if keeps_ret keeps_fmt_h keeps_apply_marks_h keeps_date_try_h keeps_get_h)
     simp_all

lemma keeps_converter:
  "(\<forall>v. keeps n (old n) (adf_to_text_h f v))
   \<and> (\<forall>v. keeps n (old n) (process_content_list_h f v))
   \<and> (\<forall>items i rp cb. keeps n (old n) (process_items_h f items i rp cb))"
proof (induction f)
  case 0
  show ?case by (simp add: keeps_out_of_fuel)
next
  case (Suc f)
  then have ih1: "\<And>v. keeps n (old n) (adf_to_text_h f v)"
    and ih2: "\<And>v. keeps n (old n) (process_content_list_h f v)"
    and ih3: "\<And>items i rp cb. keeps n (old n) (process_items_h f items i rp cb)"
    by blast+
  have node: "keeps n (old n)
       (bindH (get_h v ''type'' VNone) (\<lambda>ty.
          if ty \<in> set inline_types then inline_node_h f v ty
          else if ty = VStr ''codeBlock'' then
            bindH (get_new v ''content'' (OList [])) (\<lambda>content.
            bindH (adf_to_text_h f content) (\<lambda>r.
            bindH (test r) (\<lambda>b.
              fmt_h f (''```'' @ [nl]) (if b then r else VStr []) ([nl] @ ''```''))))
          else
            bindH (get_h v ''content'' VNone) (\<lambda>content.
            bindH (test content) (\<lambda>b.
              if b then adf_to_text_h f content else ret VNone))))" for v
    by (intro keeps_bind [OF keeps_get_h] keeps_bind [OF keeps_get_new] keeps_bind [OF ih1]
          keeps_bind [OF keeps_test] keeps_if keeps_inline_node_h keeps_fmt_h keeps_ret ih1)
       simp_all
  have a: "keeps n (old n) (adf_to_text_h (Suc f) v)" for v
  proof (cases v)
    case (VRef a)
    have "keeps n (old n) (case ob of
              Some (OList l) \<Rightarrow> process_content_list_h f v
            | Some (ODict d) \<Rightarrow>
                bindH (get_h v ''type'' VNone) (\<lambda>ty.
                  if ty \<in> set inline_types then inline_node_h f v ty
                  else if ty = VStr ''codeBlock'' then
                    bindH (get_new v ''content'' (OList [])) (\<lambda>content.
                    bindH (adf_to_text_h f content) (\<lambda>r.
                    bindH (test r) (\<lambda>b.
                      fmt_h f (''```'' @ [nl]) (if b then r else VStr []) ([nl] @ ''```''))))
                  else
                    bindH (get_h v ''content'' VNone) (\<lambda>content.
                    bindH (test content) (\<lambda>b.
                      if b then adf_to_text_h f content else ret VNone)))
            | None \<Rightarrow> ret VNone)" for ob
      by (auto intro: node ih2 keeps_ret split: option.splits obj.splits)
    with VRef show ?thesis
      by (auto intro!: keeps_bind [where Q = "\<lambda>_. True"] keeps_lift)
  qed (simp_all add: keeps_ret)
  have b: "keeps n (old n) (process_content_list_h (Suc f) v)" for v
    unfolding process_content_list_h.simps
    by (intro keeps_bind [OF keeps_test] keeps_bind [OF keeps_alloc] keeps_if keeps_ret ih3)
       simp_all
  have fin: "keeps n (old n)
       (bindH (flush_code_buffer_h rp cb) (\<lambda>_.
        bindH (test rp) (\<lambda>b.
          if b then bindH (strings_h rp) (\<lambda>ss. ret (VStr (join_with [nl] ss)))
          else ret VNone)))" for rp cb
    by (intro keeps_bind [OF keeps_flush_code_buffer_h] keeps_bind [OF keeps_test]
          keeps_bind [OF keeps_strings_h] keeps_if keeps_ret)
       simp_all
  have app: "keeps n (\<lambda>_. True) (if b then list_append rp tv else ret ())" if "old n tv"
    for b rp tv
    using that by (simp add: keeps_list_append keeps_ret)
  have step: "keeps n (old n)
       (bindH (lift (\<lambda>h. Inr (lookup h item))) (\<lambda>ob.
        bindH (case ob of Some (ODict d) \<Rightarrow> has_code_mark_h f item | _ \<Rightarrow> ret False) (\<lambda>c.
          if c then
            bindH (get_text_without_code_mark_h f item) (\<lambda>tv.
            bindH (split_h tv) (\<lambda>lines.
            bindH (list_extend cb lines) (\<lambda>_.
              process_items_h f items (Suc i) rp cb)))
          else
            bindH (flush_code_buffer_h rp cb) (\<lambda>_.
            bindH (adf_to_text_h f item) (\<lambda>tv.
            bindH (test tv) (\<lambda>b.
            bindH (if b then list_append rp tv else ret ()) (\<lambda>_.
              process_items_h f items (Suc i) rp cb)))))))" for item items i rp cb
  proof (rule keeps_bind [where Q = "\<lambda>_. True"])
    show "keeps n (\<lambda>_. True) (lift (\<lambda>h. Inr (lookup h item)))"
      by (simp add: keeps_lift)
  next
    fix ob :: "obj option"
    have cm: "keeps n (\<lambda>_. True)
        (case ob of Some (ODict d) \<Rightarrow> has_code_mark_h f item | _ \<Rightarrow> ret False)"
      by (auto intro: keeps_has_code_mark_h keeps_ret split: option.splits obj.splits)
    show "keeps n (old n)
        (bindH (case ob of Some (ODict d) \<Rightarrow> has_code_mark_h f item | _ \<Rightarrow> ret False) (\<lambda>c.
          if c then
            bindH (get_text_without_code_mark_h f item) (\<lambda>tv.
            bindH (split_h tv) (\<lambda>lines.
            bindH (list_extend cb lines) (\<lambda>_.
              process_items_h f items (Suc i) rp cb)))
          else
            bindH (flush_code_buffer_h rp cb) (\<lambda>_.
            bindH (adf_to_text_h f item) (\<lambda>tv.
            bindH (test tv) (\<lambda>b.
            bindH (if b then list_append rp tv else ret ()) (\<lambda>_.
              process_items_h f items (Suc i) rp cb))))))"
      by (intro keeps_bind [OF cm] keeps_bind [OF keeps_get_text_without_code_mark_h]
            keeps_bind [OF keeps_split_h] keeps_bind [OF keeps_list_extend]
            keeps_bind [OF keeps_flush_code_buffer_h] keeps_bind [OF ih1]
            keeps_bind [OF keeps_test] keeps_bind [OF app] keeps_if ih3)
  qed
  have c: "keeps n (old n) (process_items_h (Suc f) items i rp cb)" for items i rp cb
    unfolding process_items_h.simps
  proof (rule keeps_bind [OF keeps_next_h])
    fix nx
    show "keeps n (old n) (case nx of
         None \<Rightarrow>
           bindH (flush_code_buffer_h rp cb) (\<lambda>_.
           bindH (test rp) (\<lambda>b.
             if b then bindH (strings_h rp) (\<lambda>ss. ret (VStr (join_with [nl] ss)))
             else ret VNone))
       | Some item \<Rightarrow>
           bindH (lift (\<lambda>h. Inr (lookup h item))) (\<lambda>ob.
           bindH (case ob of Some (ODict d) \<Rightarrow> has_code_mark_h f item | _ \<Rightarrow> ret False) (\<lambda>c.
             if c then
               bindH (get_text_without_code_mark_h f item) (\<lambda>text.
               bindH (split_h text) (\<lambda>lines.
               bindH (list_extend cb lines) (\<lambda>_.
                 process_items_h f items (Suc i) rp cb)))
             else
               bindH (flush_code_buffer_h rp cb) (\<lambda>_.
               bindH (adf_to_text_h f item) (\<lambda>text.
               bindH (test text) (\<lambda>b.
               bindH (if b then list_append rp text else ret ()) (\<lambda>_.
                 process_items_h f items (Suc i) rp cb)))))))"
      by (cases nx) (simp_all add: fin step)
  qed
  from a b c show ?case by blast
qed

text \<open>
  The two models give the same results on documents put into the store, exceptions included.
  A list that contains itself has no counterpart in the first model; on it the recursion
  uses up every budget, as the interpreter's stack would.
\<close>

lemma store_examples:
  "fst (adf_to_text_h 20 (fst (store (JList [code ''a'', code ''b'', plain '' x '', code ''c'']) []))
          (snd (store (JList [code ''a'', code ''b'', plain '' x '', code ''c'']) [])))
     = Inr (VStr ''```\<newline>a\<newline>b\<newline>```\<newline> x \<newline>`c`'')"
  "fst (adf_to_text_h 20 (fst (store (card_with_data (JStr ''x'')) []))
          (snd (store (card_with_data (JStr ''x'')) [])))
     = Inl (Exn AttributeError)"
  "fst (adf_to_text_h 20 (fst (store (date_node (JInt (10 ^ 400))) []))
          (snd (store (date_node (JInt (10 ^ 400))) [])))
     = Inl (Exn OverflowError)"
  "fst (adf_to_text_h 20 (fst (store (text_node ''X'' [mark ''code'', mark ''strong'']) []))
          (snd (store (text_node ''X'' [mark ''code'', mark ''strong'']) [])))
     = Inr (VStr ''**`X`**'')"
  "fst (adf_to_text_h 20 (VRef 0) [OList [VRef 0]]) = Inl OutOfFuel"
  by code_simp+

text \<open>
  C8. A call of the converter leaves every object that was in the store when it was called
  as it was: every node, every list of marks, every mapping of attributes and every list of
  content. This holds for every input, also when the call raises, and for every budget. The
  objects that the call makes (its two local lists, default values, the lines of a split)
  come after them in the store. The store is the only state of the model, as the module has
  no variable of its own; and in a store without dangling references neither an object nor
  the result of the call refers to an object that the call made, so nothing of the call is
  kept for a later one.
\<close>

theorem input_not_mutated:
  "(\<forall>fuel v h. length h \<le> length (snd (adf_to_text_h fuel v h))
        \<and> take (length h) (snd (adf_to_text_h fuel v h)) = h)
   \<and> (\<forall>fuel v h. closed_store (length h) h \<longrightarrow>
          closed_store (length h) (snd (adf_to_text_h fuel v h))
          \<and> (\<forall>r. fst (adf_to_text_h fuel v h) = Inr r \<longrightarrow> old (length h) r))"
proof (intro conjI allI impI)
  fix fuel v and h :: heap
  from frame_converter [of "length h" fuel] have "frame (length h) (adf_to_text_h fuel v)"
    by blast
  then show "length h \<le> length (snd (adf_to_text_h fuel v h))"
    and "take (length h) (snd (adf_to_text_h fuel v h)) = h"
    by (simp_all add: frame_def)
next
  fix fuel v r and h :: heap
  assume c: "closed_store (length h) h"
  from keeps_converter [of "length h" fuel]
  have k: "keeps (length h) (old (length h)) (adf_to_text_h fuel v)"
    by blast
  with c show "closed_store (length h) (snd (adf_to_text_h fuel v h))"
    by (simp add: keeps_def)
  assume "fst (adf_to_text_h fuel v h) = Inr r"
  with k c show "old (length h) r"
    by (simp add: keeps_def)
qed

theorem input_not_mutated_witness:
  "closed_store (length (snd sample_store)) (snd sample_store)
   \<and> length (snd sample_store) = 16
   \<and> fst (adf_to_text_h 20 (fst sample_store) (snd sample_store))
       = Inr (VStr ''Hello \<newline>@John\<newline>**now**\<newline>2020-02-19\<newline>```\<newline>\<newline>```'')
   \<and> length (snd (adf_to_text_h 20 (fst sample_store) (snd sample_store))) = 27
   \<and> take (length (snd sample_store)) (snd (adf_to_text_h 20 (fst sample_store) (snd sample_store)))
       = snd sample_store
   \<and> closed_store (length (snd sample_store))
        (snd (adf_to_text_h 20 (fst sample_store) (snd sample_store)))"
proof -
  have c: "closed_store (length (snd sample_store)) (snd sample_store)"
    by code_simp
  have l: "length (snd sample_store) = 16"
    by code_simp
  have r: "fst (adf_to_text_h 20 (fst sample_store) (snd sample_store))
       = Inr (VStr ''Hello \<newline>@John\<newline>**now**\<newline>2020-02-19\<newline>```\<newline>\<newline>```'')"
    by code_simp
  have l': "length (snd (adf_to_text_h 20 (fst sample_store) (snd sample_store))) = 27"
    by code_simp
  from input_not_mutated c
  have "take (length (snd sample_store)) (snd (adf_to_text_h 20 (fst sample_store) (snd sample_store)))
       = snd sample_store
     \<and> closed_store (length (snd sample_store))
        (snd (adf_to_text_h 20 (fst sample_store) (snd sample_store)))"
    by blast
  with c l r l' show ?thesis by blast
qed

subsection \<open>The bounded stack\<close>

lemma agrees_refl [simp]: "agrees ok x x"
  by (simp add: agrees_def)





lemma agrees_frame:
  "(\<And>d'. d = Suc d' \<Longrightarrow> agrees ok (f d') y) \<Longrightarrow> (ok \<Longrightarrow> 0 < d) \<Longrightarrow>
     agrees ok (case d of 0 \<Rightarrow> Inl RecursionError | Suc d' \<Rightarrow> f d') y"
  by (cases d) (auto simp: agrees_def)

lemma nesting_dget:
  "nesting (dget kvs k dflt) \<le> max (nesting dflt) (nesting_entries kvs)"
  by (induction kvs) (auto simp: dget_def)








lemma nesting_py_get:
  "py_get v k dflt = Inr r \<Longrightarrow> nesting r \<le> max (nesting dflt) (nesting v)"
  using nesting_dget [of _ k dflt] by (cases v) (auto simp: le_max_iff_disj le_Suc_eq)

lemma nesting_py_get_0:
  "py_get v k dflt = Inr r \<Longrightarrow> nesting dflt = 0 \<Longrightarrow> nesting r \<le> nesting v"
  using nesting_py_get [of v k dflt r] by simp






lemma nesting_py_iter_Suc:
  assumes "py_iter v = Inr ms" and "nesting v \<le> Suc d"
  shows "nesting_items ms \<le> d"
proof (cases v)
  case (JStr s)
  with assms(1) have "ms = map (\<lambda>c. JStr [c]) s" by simp
  moreover have "nesting_items (map (\<lambda>c. JStr [c]) s) = 0" by (induction s) auto
  ultimately show ?thesis by simp
next
  case (JDict kvs)
  with assms(1) have "ms = map (\<lambda>kv. JStr (fst kv)) kvs" by simp
  moreover have "nesting_items (map (\<lambda>kv. JStr (fst kv)) kvs) = 0" by (induction kvs) auto
  ultimately show ?thesis by simp
qed (use assms in auto)









lemma agrees_flush_lim:
  assumes "ok \<Longrightarrow> 0 < d"
  shows "agrees ok (flush_code_buffer_lim d parts buf) (Inr (flush_code_buffer parts buf))"
  unfolding flush_code_buffer_lim_def
  by (intro agrees_frame agrees_refl) (use assms in auto)











text \<open>
  The unbounded converter returns on a chain of any length; the bounded one needs three
  frames for each node of the chain (the node, its content, the merger), and refuses the
  chain when fewer are left.
\<close>

lemma code_marked_deep: "code_marked (deep n) = Inr False"
  by (cases n) (simp_all add: node_defs eval_defs)

lemma deep_returns: "adf_to_text (deep n) = Inr (JStr ''x'')"
proof (induction n)
  case 0
  show ?case by (simp add: node_defs eval_defs)
next
  case (Suc n)
  then have "process_items [deep n] [] [] = Inr (JStr ''x'')"
    by (simp add: code_marked_deep flush_code_buffer_def py_join_nl_def)
  then show ?case by (simp add: dget_def)
qed

lemma code_marked_lim_deep:
  "code_marked_lim d (deep n) = Inl RecursionError \<or> code_marked_lim d (deep n) = Inr False"
  by (cases n; cases d)
     (auto simp: code_marked_lim_def has_code_mark_lim_def plain_def dget_def split: nat.splits)

lemma deep_refused: "d \<le> 3 * n \<Longrightarrow> adf_to_text_lim d (deep n) = Inl RecursionError"
proof (induction n arbitrary: d)
  case 0
  then show ?case by simp
next
  case (Suc n)
  show ?case
  proof (cases d)
    case 0
    then show ?thesis by simp
  next
    case d1: (Suc d1)
    show ?thesis
    proof (cases d1)
      case 0
      with d1 show ?thesis by (simp add: dget_def)
    next
      case d2: (Suc d2)
      show ?thesis
      proof (cases d2)
        case 0
        with d1 d2 show ?thesis by (simp add: dget_def)
      next
        case d3: (Suc d3)
        with d1 d2 Suc.prems have "d3 \<le> 3 * n" by simp
        then have ih: "adf_to_text_lim d3 (deep n) = Inl RecursionError" by (rule Suc.IH)
        have "process_items_lim d3 [deep n] [] [] = Inl RecursionError"
          using code_marked_lim_deep [of d3 n] ih
          by (auto simp: flush_code_buffer_lim_def split: nat.splits)
        with d1 d2 d3 show ?thesis by (simp add: dget_def)
      qed
    qed
  qed
qed

subsection \<open>Inputs of the data model\<close>



lemma returns_fitting_simps [simp]:
  "returns_fitting jn (Inl e) = False"
  "returns_fitting jn (Inr v) = fits jn v"
  by (simp_all add: returns_fitting_def)

lemma fits_simps [simp]:
  "fits jn JNull" "fits jn (JStr s)" "fits False v" "fits True v = (is_str v \<or> \<not> truthy v)"
  by (simp_all add: fits_def joinable_def)


lemma py_repr_printable:
  "(\<exists>s. py_repr v = Inr s) = printable v"
  "(\<exists>ss. repr_items xs = Inr ss) = printable_items xs"
  "(\<exists>ss. repr_entries kvs = Inr ss) = printable_entries kvs"
proof (induction v and xs and kvs rule: py_repr_repr_items_repr_entries.induct)
  case (3 i)
  show ?case by (simp add: repr_int_def)
next
  case (5 xs)
  then show ?case by (cases "repr_items xs") auto
next
  case (6 d)
  then show ?case by (cases "repr_entries d") auto
next
  case (8 x xs)
  then show ?case by (cases "py_repr x"; cases "repr_items xs") auto
next
  case (10 kv d)
  then show ?case by (cases "py_repr (snd kv)"; cases "repr_entries d") auto
qed simp_all

lemma py_str_printable: "(\<exists>s. py_str v = Inr s) = printable v"
  using py_repr_printable(1) [of v] by (cases v) simp_all

lemma fmt_printable [simp]: "returns_fitting jn (fmt pre v post) = printable v"
  using py_str_printable [of v] by (cases "py_str v") (auto simp: fmt_def)

lemma fmt_cases: "fmt pre v post = Inr r \<Longrightarrow> is_str r"
  by (auto simp: fmt_def split: sum.splits)

text \<open>Printing a number below \<open>10 ^ k\<close> takes at most \<open>k\<close> digits.\<close>

lemma length_show_dec: "0 < k \<Longrightarrow> n < 10 ^ k \<Longrightarrow> length (show_dec n) \<le> k"
proof (induction k arbitrary: n)
  case 0
  then show ?case by simp
next
  case (Suc k)
  show ?case
  proof (cases "n < 10")
    case True
    then show ?thesis by (simp add: show_dec.simps)
  next
    case False
    with Suc.prems have k: "0 < k" by (cases k) auto
    from Suc.prems have "n div 10 < 10 ^ k" by simp
    with k have "length (show_dec (n div 10)) \<le> k" by (rule Suc.IH)
    with False show ?thesis by (subst show_dec.simps) simp
  qed
qed

lemma printable_in_range: "\<not> time_t_overflow n \<Longrightarrow> printable (JInt n)"
proof -
  assume "\<not> time_t_overflow n"
  then have "\<bar>n\<bar> < 10 ^ 23" by (auto simp: time_t_overflow_def abs_if)
  then have "length (show_dec \<bar>n\<bar>) \<le> 23" by (intro length_show_dec) simp_all
  then show ?thesis by (simp add: int_max_str_digits_def)
qed

lemma fromtimestamp_ymd_cases:
  "\<not> time_t_overflow n \<Longrightarrow>
     (\<exists>s. fromtimestamp_ymd n = Inr s) \<or> fromtimestamp_ymd n = Inl ValueError"
  by (simp add: fromtimestamp_ymd_def split: prod.splits)

lemma py_int_errors: "py_int ts = Inl e \<Longrightarrow> e = ValueError \<or> e = TypeError"
  by (cases ts) (auto simp: int_of_str_def Let_def split: if_splits)

lemma py_int_printable: "py_int ts = Inr n \<Longrightarrow> \<not> time_t_overflow n \<Longrightarrow> printable ts"
  by (cases ts) (auto dest: printable_in_range)

lemma date_try_ok [simp]: "returns_fitting jn (date_try ts) = timestamp_ok ts"
proof (cases "py_int ts")
  case (Inl e)
  then have "e = ValueError \<or> e = TypeError" by (rule py_int_errors)
  with Inl have "date_try ts = (case py_str ts of Inl e' \<Rightarrow> Inl e' | Inr s \<Rightarrow> Inr (JStr s))"
    by (auto simp: date_try_def)
  with Inl show ?thesis
    using py_str_printable [of ts] by (cases "py_str ts") (auto simp: timestamp_ok_def)
next
  case (Inr n)
  show ?thesis
  proof (cases "time_t_overflow n")
    case True
    with Inr show ?thesis
      by (simp add: date_try_def timestamp_ok_def fromtimestamp_ymd_def)
  next
    case False
    with Inr have "printable ts" by (intro py_int_printable)
    then obtain s where "py_str ts = Inr s" using py_str_printable [of ts] by auto
    with Inr False fromtimestamp_ymd_cases [OF False] show ?thesis
      by (auto simp: date_try_def timestamp_ok_def)
  qed
qed


















lemma strs_of_iff: "(\<exists>ss. strs_of ps = Inr ss) = list_all is_str ps"
  by (induction ps rule: strs_of.induct) (auto split: sum.splits)

lemma join_ok [simp]: "returns_fitting jn (py_join_nl ps) = list_all is_str ps"
  using strs_of_iff [of ps] by (cases "strs_of ps") (auto simp: py_join_nl_def)






lemma not_returns_Inl [simp]: "\<not> returns (Inl e)"
  by (simp add: returns_def)




end
